theory Spec2Isabelle
  imports Complex_Main "HOL-Library.Multiset"
begin

section \<open>Strings and numbers of the host language\<close>

text \<open>
  A JavaScript string is a sequence of UTF-16 code units. A code unit is modelled as a
  natural number (below 65536 for a real string); \<open>content.length\<close> is the length of
  the list and \<open>content[i]\<close> is its i-th code unit. The literals of the source are
  ASCII and are written \<open>js ''...''\<close>.
\<close>

type_synonym jsstring = "nat list"

definition js :: "string \<Rightarrow> jsstring" where
  "js s = map of_char s"

text \<open>\<open>String(n)\<close> for a non-negative integer: its decimal digits.\<close>

function numberToString :: "nat \<Rightarrow> jsstring" where
  "numberToString n =
     (if n < 10 then [48 + n] else numberToString (n div 10) @ [48 + n mod 10])"
  by pat_completeness auto
termination
  by (relation "measure (\<lambda>n. n)") auto

declare numberToString.simps [simp del]

text \<open>\<open>parts.join(sep)\<close>.\<close>

fun join :: "jsstring \<Rightarrow> jsstring list \<Rightarrow> jsstring" where
  "join sep [] = []"
| "join sep [x] = x"
| "join sep (x # y # ys) = x @ sep @ join sep (y # ys)"

text \<open>\<open>xs.slice(0, n)\<close> on an array is \<open>take n xs\<close>.\<close>

section \<open>String methods\<close>

fun startsWith :: "jsstring \<Rightarrow> jsstring \<Rightarrow> bool" where
  "startsWith s [] = True"
| "startsWith [] (p # ps) = False"
| "startsWith (c # cs) (p # ps) = (c = p \<and> startsWith cs ps)"

definition endsWith :: "jsstring \<Rightarrow> jsstring \<Rightarrow> bool" where
  "endsWith s p = startsWith (rev s) (rev p)"

fun includes' :: "jsstring \<Rightarrow> jsstring \<Rightarrow> bool" where
  "includes' [] p = (p = [])"
| "includes' (c # cs) p = (startsWith (c # cs) p \<or> includes' cs p)"

text \<open>\<open>s.slice(a, b)\<close> and \<open>s.substring(0, n)\<close> for indices in order.\<close>

definition slice :: "'a list \<Rightarrow> nat \<Rightarrow> nat \<Rightarrow> 'a list" where
  "slice s a b = take (b - a) (drop a s)"

definition padStart :: "jsstring \<Rightarrow> nat \<Rightarrow> nat \<Rightarrow> jsstring" where
  "padStart s n c = replicate (n - length s) c @ s"

text \<open>
  The white space and line terminators of the language: what \<open>trim()\<close> removes and
  what \<open>\s\<close> matches.
\<close>

definition isLineTerminator :: "nat \<Rightarrow> bool" where
  "isLineTerminator c = (c = 10 \<or> c = 13 \<or> c = 8232 \<or> c = 8233)"

definition isWhiteSpace :: "nat \<Rightarrow> bool" where
  "isWhiteSpace c =
     (c = 9 \<or> c = 11 \<or> c = 12 \<or> c = 32 \<or> c = 160 \<or> c = 5760
      \<or> (8192 \<le> c \<and> c \<le> 8202) \<or> c = 8239 \<or> c = 8287 \<or> c = 12288 \<or> c = 65279
      \<or> isLineTerminator c)"

definition trim :: "jsstring \<Rightarrow> jsstring" where
  "trim s = rev (dropWhile isWhiteSpace (rev (dropWhile isWhiteSpace s)))"

text \<open>\<open>content.split('\n')\<close>: always at least one piece.\<close>

fun split :: "nat \<Rightarrow> jsstring \<Rightarrow> jsstring list" where
  "split sep [] = [[]]"
| "split sep (c # cs) =
     (if c = sep then [] # split sep cs
      else (case split sep cs of l # ls \<Rightarrow> (c # l) # ls | [] \<Rightarrow> [[c]]))"

text \<open>\<open>n.toString(16).toUpperCase()\<close> for a non-negative integer.\<close>

definition hexDigitUpper :: "nat \<Rightarrow> nat" where
  "hexDigitUpper d = (if d < 10 then 48 + d else 55 + d)"

function toHexUpper :: "nat \<Rightarrow> jsstring" where
  "toHexUpper n =
     (if n < 16 then [hexDigitUpper n] else toHexUpper (n div 16) @ [hexDigitUpper (n mod 16)])"
  by pat_completeness auto
termination
  by (relation "measure (\<lambda>n. n)") auto

declare toHexUpper.simps [simp del]

section \<open>Regular expressions\<close>

text \<open>
  The regular expressions of the source are data. Matching is the backtracking search of
  the language, written with continuations: a matcher takes the continuation to run at
  the state where it stops (the code unit before the position, if any, and the rest of
  the input) and returns the first success, trying the alternatives in the order of the
  language. Quantifiers are greedy, and an iteration of a star that consumes nothing
  is rejected. With the flag \<open>i\<close> two code units match when their canonical forms are
  equal; none of the patterns has the flag \<open>u\<close>, so a code unit outside ASCII is never
  canonicalised to an ASCII one, and all letters of the patterns are ASCII.
\<close>

datatype charItem =
  Ch nat             \<comment> \<open>one code unit\<close>
  | Range nat nat    \<comment> \<open>\<open>a-z\<close>\<close>
  | Space            \<comment> \<open>\<open>\s\<close>\<close>
  | Digit            \<comment> \<open>\<open>\d\<close>\<close>

datatype regex =
  Lit jsstring            \<comment> \<open>a sequence of literal code units\<close>
  | AnyChar               \<comment> \<open>\<open>.\<close>\<close>
  | Class "charItem list"     \<comment> \<open>\<open>[...]\<close>, and \<open>\s\<close>, \<open>\d\<close> alone\<close>
  | NotClass "charItem list"  \<comment> \<open>\<open>[^...]\<close>\<close>
  | Seq regex regex
  | Alt regex regex
  | Star regex
  | Plus regex
  | Opt regex
  | Repeat nat regex      \<comment> \<open>\<open>r{n}\<close>\<close>
  | Bol                   \<comment> \<open>\<open>^\<close>\<close>
  | Eol                   \<comment> \<open>\<open>$\<close>\<close>
  | WordBoundary          \<comment> \<open>\<open>\b\<close>\<close>

type_synonym mstate = "nat option \<times> jsstring"

definition canonicalize :: "bool \<Rightarrow> nat \<Rightarrow> nat" where
  "canonicalize ic c = (if ic \<and> 97 \<le> c \<and> c \<le> 122 then c - 32 else c)"

fun itemHas :: "bool \<Rightarrow> charItem \<Rightarrow> nat \<Rightarrow> bool" where
  "itemHas ic (Ch a) c = (canonicalize ic a = canonicalize ic c)"
| "itemHas ic (Range a b) c =
     ((a \<le> c \<and> c \<le> b)
      \<or> (ic \<and> ((65 \<le> c \<and> c \<le> 90 \<and> a \<le> c + 32 \<and> c + 32 \<le> b)
                \<or> (97 \<le> c \<and> c \<le> 122 \<and> a \<le> c - 32 \<and> c - 32 \<le> b))))"
| "itemHas ic Space c = isWhiteSpace c"
| "itemHas ic Digit c = (48 \<le> c \<and> c \<le> 57)"

definition classHas :: "bool \<Rightarrow> charItem list \<Rightarrow> nat \<Rightarrow> bool" where
  "classHas ic items c = list_ex (\<lambda>i. itemHas ic i c) items"

definition isWordChar :: "nat \<Rightarrow> bool" where
  "isWordChar c =
     ((97 \<le> c \<and> c \<le> 122) \<or> (65 \<le> c \<and> c \<le> 90) \<or> (48 \<le> c \<and> c \<le> 57) \<or> c = 95)"

text \<open>One code unit, accepted by a predicate.\<close>

fun step :: "(nat \<Rightarrow> bool) \<Rightarrow> (mstate \<Rightarrow> 'a option) \<Rightarrow> mstate \<Rightarrow> 'a option" where
  "step P k (prev, []) = None"
| "step P k (prev, c # cs) = (if P c then k (Some c, cs) else None)"

fun matchLit :: "bool \<Rightarrow> jsstring \<Rightarrow> (mstate \<Rightarrow> 'a option) \<Rightarrow> mstate \<Rightarrow> 'a option" where
  "matchLit ic [] k st = k st"
| "matchLit ic (p # ps) k (prev, []) = None"
| "matchLit ic (p # ps) k (prev, c # cs) =
     (if canonicalize ic p = canonicalize ic c then matchLit ic ps k (Some c, cs) else None)"

text \<open>
  The greedy star of a matcher \<open>m\<close>: another iteration first, then stopping here. Every
  iteration consumes at least one code unit, so the length of the rest bounds the number
  of iterations.
\<close>

fun starLoop ::
  "((mstate \<Rightarrow> 'a option) \<Rightarrow> mstate \<Rightarrow> 'a option) \<Rightarrow> nat \<Rightarrow> (mstate \<Rightarrow> 'a option)
     \<Rightarrow> mstate \<Rightarrow> 'a option" where
  "starLoop m 0 k st = k st"
| "starLoop m (Suc n) k st =
     (case m (\<lambda>st'. if length (snd st') < length (snd st) then starLoop m n k st' else None) st of
        Some x \<Rightarrow> Some x
      | None \<Rightarrow> k st)"

fun repeatLoop ::
  "((mstate \<Rightarrow> 'a option) \<Rightarrow> mstate \<Rightarrow> 'a option) \<Rightarrow> nat \<Rightarrow> (mstate \<Rightarrow> 'a option)
     \<Rightarrow> mstate \<Rightarrow> 'a option" where
  "repeatLoop m 0 k st = k st"
| "repeatLoop m (Suc n) k st = m (repeatLoop m n k) st"

definition atWordBoundary :: "mstate \<Rightarrow> bool" where
  "atWordBoundary st =
     ((case fst st of None \<Rightarrow> False | Some c \<Rightarrow> isWordChar c)
      \<noteq> (case snd st of [] \<Rightarrow> False | c # cs \<Rightarrow> isWordChar c))"

primrec rmatch :: "bool \<Rightarrow> regex \<Rightarrow> (mstate \<Rightarrow> 'a option) \<Rightarrow> mstate \<Rightarrow> 'a option" where
  "rmatch ic (Lit s) = matchLit ic s"
| "rmatch ic AnyChar = step (\<lambda>c. \<not> isLineTerminator c)"
| "rmatch ic (Class items) = step (classHas ic items)"
| "rmatch ic (NotClass items) = step (\<lambda>c. \<not> classHas ic items c)"
| "rmatch ic (Seq a b) = (\<lambda>k. rmatch ic a (rmatch ic b k))"
| "rmatch ic (Alt a b) =
     (\<lambda>k st. case rmatch ic a k st of Some x \<Rightarrow> Some x | None \<Rightarrow> rmatch ic b k st)"
| "rmatch ic (Star r) = (\<lambda>k st. starLoop (rmatch ic r) (length (snd st)) k st)"
| "rmatch ic (Plus r) =
     (\<lambda>k. rmatch ic r (\<lambda>st'. starLoop (rmatch ic r) (length (snd st')) k st'))"
| "rmatch ic (Opt r) =
     (\<lambda>k st. case rmatch ic r k st of Some x \<Rightarrow> Some x | None \<Rightarrow> k st)"
| "rmatch ic (Repeat n r) = repeatLoop (rmatch ic r) n"
| "rmatch ic Bol = (\<lambda>k st. if fst st = None then k st else None)"
| "rmatch ic Eol = (\<lambda>k st. if snd st = [] then k st else None)"
| "rmatch ic WordBoundary = (\<lambda>k st. if atWordBoundary st then k st else None)"

text \<open>
  \<open>pattern.exec\<close> from a state: the leftmost position at which the pattern matches,
  as the state before the match and the state after it.
\<close>

fun execFrom :: "bool \<Rightarrow> regex \<Rightarrow> mstate \<Rightarrow> (mstate \<times> mstate) option" where
  "execFrom ic r (prev, []) = rmatch ic r (\<lambda>e. Some ((prev, []), e)) (prev, [])"
| "execFrom ic r (prev, c # cs) =
     (case rmatch ic r (\<lambda>e. Some ((prev, c # cs), e)) (prev, c # cs) of
        Some m \<Rightarrow> Some m
      | None \<Rightarrow> execFrom ic r (Some c, cs))"

text \<open>\<open>pattern.test(s)\<close>.\<close>

definition regexTest :: "bool \<Rightarrow> regex \<Rightarrow> jsstring \<Rightarrow> bool" where
  "regexTest ic r s = (execFrom ic r (None, s) \<noteq> None)"

text \<open>The text between two states of one input.\<close>

definition matched :: "mstate \<Rightarrow> mstate \<Rightarrow> jsstring" where
  "matched b e = take (length (snd b) - length (snd e)) (snd b)"

text \<open>
  \<open>s.match(pattern)\<close> for a pattern with the flag \<open>g\<close>: the matches from left to
  right. The next search starts where the match ended, and one code unit further when
  the match is empty (\<open>None\<close>: the input is used up). No match gives \<open>null\<close>, here the
  empty list.
\<close>

definition nextSearch :: "mstate \<Rightarrow> mstate \<Rightarrow> mstate option" where
  "nextSearch b e =
     (if length (snd e) < length (snd b) then Some e
      else (case snd e of [] \<Rightarrow> None | c # cs \<Rightarrow> Some (Some c, cs)))"

text \<open>
  The state of the next search is always shorter than the state of this one (a match
  ends inside the rest of the input); the test for it is what the termination proof
  reads.
\<close>

function matchAllFrom :: "bool \<Rightarrow> regex \<Rightarrow> mstate \<Rightarrow> jsstring list" where
  "matchAllFrom ic r st =
     (case execFrom ic r st of
        None \<Rightarrow> []
      | Some (b, e) \<Rightarrow>
          matched b e #
          (case nextSearch b e of
             None \<Rightarrow> []
           | Some st' \<Rightarrow>
               if length (snd st') < length (snd st) then matchAllFrom ic r st' else []))"
  by pat_completeness auto
termination
  by (relation "measure (\<lambda>(ic, r, st). length (snd st))") auto

declare matchAllFrom.simps [simp del]

definition matchAll :: "bool \<Rightarrow> regex \<Rightarrow> jsstring \<Rightarrow> jsstring list" where
  "matchAll ic r s = matchAllFrom ic r (None, s)"

text \<open>
  \<open>s.match(/pre(grp)/)\<close> for a pattern without the flag \<open>g\<close> that ends with its only
  group: the text of the group in the first match, if there is a match.
\<close>

fun matchGroupFrom :: "bool \<Rightarrow> regex \<Rightarrow> regex \<Rightarrow> mstate \<Rightarrow> jsstring option" where
  "matchGroupFrom ic pre grp (prev, []) =
     rmatch ic pre (\<lambda>m. rmatch ic grp (\<lambda>e. Some (matched m e)) m) (prev, [])"
| "matchGroupFrom ic pre grp (prev, c # cs) =
     (case rmatch ic pre (\<lambda>m. rmatch ic grp (\<lambda>e. Some (matched m e)) m) (prev, c # cs) of
        Some g \<Rightarrow> Some g
      | None \<Rightarrow> matchGroupFrom ic pre grp (Some c, cs))"

definition matchGroup :: "bool \<Rightarrow> regex \<Rightarrow> regex \<Rightarrow> jsstring \<Rightarrow> jsstring option" where
  "matchGroup ic pre grp s = matchGroupFrom ic pre grp (None, s)"

section \<open>shared/types\<close>

datatype RiskLevel = RED | YELLOW | GREEN

datatype FindingCategory =
  VSCODE | NPM | PYTHON | RUST | GITHUB_ACTIONS | ENTROPY | HOMOGLYPH
  | PARSE_ERROR | FETCH_ERROR

record Finding =
  riskLevel :: RiskLevel
  filePath :: jsstring
  description :: jsstring
  lineNumber :: "nat option"
  matchedContent :: "jsstring option"
  category :: FindingCategory

record RepositoryInfo =
  owner :: jsstring
  repo :: jsstring
  branch :: "jsstring option"
  url :: jsstring

record ScanResult =
  overallRisk :: RiskLevel
  findings :: "Finding list"
  scannedFiles :: "jsstring list"
  skippedFiles :: "jsstring list"
  timestamp :: nat
  repository :: RepositoryInfo

record FileContent =
  path :: jsstring
  content :: jsstring
  exists :: bool

text \<open>The string value of the enum, as a template literal prints it.\<close>

fun riskLevelString :: "RiskLevel \<Rightarrow> jsstring" where
  "riskLevelString RED = js ''RED''"
| "riskLevelString YELLOW = js ''YELLOW''"
| "riskLevelString GREEN = js ''GREEN''"

section \<open>shared/constants\<close>

definition ENTROPY_NORMAL :: real where "ENTROPY_NORMAL = 7 / 2"
definition ENTROPY_WARNING :: real where "ENTROPY_WARNING = 11 / 2"
definition ENTROPY_CRITICAL :: real where "ENTROPY_CRITICAL = 13 / 2"

definition INVISIBLE_CHARS :: "nat list" where
  "INVISIBLE_CHARS = [0x200B, 0x200C, 0x200D, 0xFEFF, 0x00AD, 0x2060, 0x180E]"

text \<open>
  The table HOMOGLYPHS in the order of its entries: a Latin letter and its lookalikes.
  The third lookalike of \<open>o\<close> is the ASCII digit zero.
\<close>

definition HOMOGLYPHS :: "(nat \<times> nat list) list" where
  "HOMOGLYPHS =
     [(0x61, [0x430, 0x251, 0x3B1]),
      (0x63, [0x441, 0x3F2]),
      (0x65, [0x435, 0x3B5]),
      (0x6F, [0x43E, 0x3BF, 0x30]),
      (0x70, [0x440, 0x3C1]),
      (0x78, [0x445, 0x3C7]),
      (0x79, [0x443, 0x3B3]),
      (0x42, [0x412, 0x392]),
      (0x48, [0x41D, 0x397]),
      (0x4B, [0x41A, 0x39A]),
      (0x4D, [0x41C, 0x39C]),
      (0x54, [0x422, 0x3A4]),
      (0x69, [0x456, 0x3B9]),
      (0x6A, [0x458]),
      (0x73, [0x455])]"

definition BIDI_CHARS :: "nat list" where
  "BIDI_CHARS = [0x202A, 0x202B, 0x202C, 0x202D, 0x202E, 0x2066, 0x2067, 0x2068, 0x2069]"

definition INJECTABLE_CONTEXTS :: "jsstring list" where
  "INJECTABLE_CONTEXTS =
     [js ''github.event.issue.title'',
      js ''github.event.issue.body'',
      js ''github.event.pull_request.title'',
      js ''github.event.pull_request.body'',
      js ''github.event.comment.body'',
      js ''github.event.review.body'',
      js ''github.event.review_comment.body'',
      js ''github.head_ref'']"

section \<open>heuristics/homoglyphDetector\<close>

datatype HiddenType = ZeroWidth | Homoglyph | Bidi

text \<open>
  The fields \<open>type\<close> and \<open>context\<close> of the interface are \<open>hiddenType\<close> and
  \<open>hiddenContext\<close> here.
\<close>

record HiddenCharacterResult =
  hiddenType :: HiddenType
  position :: nat
  character :: nat
  codePoint :: jsstring
  hiddenContext :: "jsstring option"

text \<open>\<open>`U+${char.charCodeAt(0).toString(16).toUpperCase().padStart(4, '0')}`\<close>\<close>

definition codePointOf :: "nat \<Rightarrow> jsstring" where
  "codePointOf c = js ''U+'' @ padStart (toHexUpper c) 4 48"

text \<open>\<open>s.replace(/[class]/g, rep)\<close> for a class of single code units.\<close>

definition replaceAll :: "(nat \<Rightarrow> bool) \<Rightarrow> jsstring \<Rightarrow> jsstring \<Rightarrow> jsstring" where
  "replaceAll P rep s = concat (map (\<lambda>c. if P c then rep else [c]) s)"

definition getContext :: "jsstring \<Rightarrow> nat \<Rightarrow> nat \<Rightarrow> jsstring" where
  "getContext content' pos radius =
     (let start = pos - radius;
          end' = min (length content') (pos + radius + 1);
          c0 = slice content' start end';
          c1 = replaceAll (\<lambda>c. (0x200B \<le> c \<and> c \<le> 0x200D) \<or> c = 0xFEFF) (js ''[ZWSP]'') c0;
          c2 = replaceAll (\<lambda>c. (0x202A \<le> c \<and> c \<le> 0x202E) \<or> (0x2066 \<le> c \<and> c \<le> 0x2069))
                 (js ''[BIDI]'') c1;
          c3 = (if start > 0 then js ''...'' @ c2 else c2);
          c4 = (if end' < length content' then c3 @ js ''...'' else c3)
      in c4)"

text \<open>The body of the loop of \<open>detectInvisibleCharacters\<close> at index \<open>i\<close>.\<close>

definition invisibleAt :: "jsstring \<Rightarrow> nat \<Rightarrow> HiddenCharacterResult list" where
  "invisibleAt content' i =
     (let char = content' ! i in
        (if char \<in> set INVISIBLE_CHARS
         then [\<lparr> hiddenType = ZeroWidth, position = i, character = char,
                  codePoint = codePointOf char,
                  hiddenContext = Some (getContext content' i 10) \<rparr>]
         else [])
        @
        (if char \<in> set BIDI_CHARS
         then [\<lparr> hiddenType = Bidi, position = i, character = char,
                  codePoint = codePointOf char,
                  hiddenContext = Some (getContext content' i 10) \<rparr>]
         else []))"

definition detectInvisibleCharacters :: "jsstring \<Rightarrow> HiddenCharacterResult list" where
  "detectInvisibleCharacters content' =
     concat (map (invisibleAt content') [0..<length content'])"

text \<open>\<open>`'${char}' looks like '${latin}' at position ${i}`\<close>\<close>

definition looksLike :: "nat \<Rightarrow> nat \<Rightarrow> nat \<Rightarrow> jsstring" where
  "looksLike char latin i =
     [39, char, 39] @ js '' looks like '' @ [39, latin, 39] @ js '' at position ''
       @ numberToString i"

definition homoglyphsAt :: "jsstring \<Rightarrow> nat \<Rightarrow> HiddenCharacterResult list" where
  "homoglyphsAt content' i =
     (let char = content' ! i in
        concat (map (\<lambda>(latin, lookalikes).
                  if char \<in> set lookalikes
                  then [\<lparr> hiddenType = Homoglyph, position = i, character = char,
                           codePoint = codePointOf char,
                           hiddenContext = Some (looksLike char latin i) \<rparr>]
                  else [])
                HOMOGLYPHS))"

definition detectHomoglyphs :: "jsstring \<Rightarrow> HiddenCharacterResult list" where
  "detectHomoglyphs content' = concat (map (homoglyphsAt content') [0..<length content'])"

text \<open>\<open>/[^\x00-\x7F]/.test(content)\<close>\<close>

definition hasNonAscii :: "jsstring \<Rightarrow> bool" where
  "hasNonAscii content' = list_ex (\<lambda>c. \<not> c \<le> 0x7F) content'"

definition hasMixedScripts :: "jsstring \<Rightarrow> bool" where
  "hasMixedScripts content' =
     (let hasLatin = list_ex (\<lambda>c. (97 \<le> c \<and> c \<le> 122) \<or> (65 \<le> c \<and> c \<le> 90)) content';
          hasCyrillic = list_ex (\<lambda>c. 0x0400 \<le> c \<and> c \<le> 0x04FF) content';
          hasGreek = list_ex (\<lambda>c. 0x0370 \<le> c \<and> c \<le> 0x03FF) content';
          scriptCount = length (filter (\<lambda>b. b) [hasLatin, hasCyrillic, hasGreek])
      in scriptCount > 1)"

text \<open>\<open>`${c.codePoint} at pos ${c.position}`\<close>\<close>

definition atPos :: "HiddenCharacterResult \<Rightarrow> jsstring" where
  "atPos c = codePoint c @ js '' at pos '' @ numberToString (position c)"

text \<open>\<open>c.context\<close> in a template or a join: the text, or nothing when undefined.\<close>

definition contextText :: "HiddenCharacterResult \<Rightarrow> jsstring" where
  "contextText c = (case hiddenContext c of Some t \<Rightarrow> t | None \<Rightarrow> [])"

definition scanForHomoglyphs :: "jsstring \<Rightarrow> jsstring \<Rightarrow> Finding list" where
  "scanForHomoglyphs content' filePath' =
     (let invisibleChars = detectInvisibleCharacters content';
          zeroWidth = filter (\<lambda>c. hiddenType c = ZeroWidth) invisibleChars;
          bidi = filter (\<lambda>c. hiddenType c = Bidi) invisibleChars;
          findings1 =
            (if length invisibleChars > 0 \<and> length zeroWidth > 0
             then [\<lparr> riskLevel = RED, filePath = filePath',
                      description = numberToString (length zeroWidth)
                        @ js '' zero-width character(s) detected - potential obfuscation'',
                      lineNumber = None,
                      matchedContent = Some (join (js '', '') (map atPos (take 3 zeroWidth))),
                      category = HOMOGLYPH \<rparr>]
             else []);
          findings2 =
            (if length invisibleChars > 0 \<and> length bidi > 0
             then [\<lparr> riskLevel = RED, filePath = filePath',
                      description = numberToString (length bidi)
                        @ js '' bidirectional override character(s) detected - potential Trojan Source attack'',
                      lineNumber = None,
                      matchedContent = Some (join (js '', '') (map atPos (take 3 bidi))),
                      category = HOMOGLYPH \<rparr>]
             else []);
          homoglyphs = detectHomoglyphs content';
          findings3 =
            (if length homoglyphs > 0
             then (if hasMixedScripts content'
                   then [\<lparr> riskLevel = RED, filePath = filePath',
                            description = numberToString (length homoglyphs)
                              @ js '' homoglyph character(s) detected in mixed-script context - potential spoofing attack'',
                            lineNumber = None,
                            matchedContent =
                              Some (join (js ''; '') (map contextText (take 3 homoglyphs))),
                            category = HOMOGLYPH \<rparr>]
                   else if length homoglyphs > 0
                   then [\<lparr> riskLevel = YELLOW, filePath = filePath',
                            description = numberToString (length homoglyphs)
                              @ js '' potential homoglyph character(s) detected'',
                            lineNumber = None,
                            matchedContent =
                              Some (join (js ''; '') (map contextText (take 3 homoglyphs))),
                            category = HOMOGLYPH \<rparr>]
                   else [])
             else [])
      in findings1 @ findings2 @ findings3)"

definition needsHomoglyphScan :: "jsstring \<Rightarrow> bool" where
  "needsHomoglyphScan content' =
     (hasNonAscii content'
      \<or> list_ex (\<lambda>c. includes' content' [c]) INVISIBLE_CHARS
      \<or> list_ex (\<lambda>c. includes' content' [c]) BIDI_CHARS)"

section \<open>heuristics/entropy\<close>

text \<open>
  \<open>for (const char of data)\<close> iterates over code points: a high surrogate followed by
  a low surrogate is one element of two code units, every other code unit is an element
  of its own. \<open>data.length\<close> counts code units.
\<close>

definition isHighSurrogate :: "nat \<Rightarrow> bool" where
  "isHighSurrogate c = (0xD800 \<le> c \<and> c \<le> 0xDBFF)"

definition isLowSurrogate :: "nat \<Rightarrow> bool" where
  "isLowSurrogate c = (0xDC00 \<le> c \<and> c \<le> 0xDFFF)"

fun stringIterator :: "jsstring \<Rightarrow> jsstring list" where
  "stringIterator [] = []"
| "stringIterator [c] = [[c]]"
| "stringIterator (c # d # cs) =
     (if isHighSurrogate c \<and> isLowSurrogate d then [c, d] # stringIterator cs
      else [c] # stringIterator (d # cs))"

text \<open>
  The Map \<open>frequencies\<close>, in insertion order:
  \<open>frequencies.set(char, (frequencies.get(char) || 0) + 1)\<close>.
\<close>

fun countChar :: "(jsstring \<times> nat) list \<Rightarrow> jsstring \<Rightarrow> (jsstring \<times> nat) list" where
  "countChar [] ch = [(ch, 1)]"
| "countChar ((k, n) # m) ch = (if k = ch then (k, n + 1) # m else (k, n) # countChar m ch)"

definition charFrequencies :: "jsstring \<Rightarrow> (jsstring \<times> nat) list" where
  "charFrequencies data = foldl countChar [] (stringIterator data)"

text \<open>
  The numbers of the language are doubles; the model computes with real numbers.
  \<open>Math.log2\<close> is \<open>log 2\<close>.
\<close>

definition calculateEntropy :: "jsstring \<Rightarrow> real" where
  "calculateEntropy data =
     (if length data = 0 then 0
      else foldl (\<lambda>entropy count.
                    entropy - (real count / real (length data))
                              * log 2 (real count / real (length data)))
             0 (map snd (charFrequencies data)))"

datatype EntropyLevel = Normal | Elevated | High | Critical

definition classifyEntropy :: "real \<Rightarrow> EntropyLevel" where
  "classifyEntropy entropy =
     (if entropy \<ge> ENTROPY_CRITICAL then Critical
      else if entropy \<ge> ENTROPY_WARNING then High
      else if entropy \<ge> ENTROPY_NORMAL then Elevated
      else Normal)"

text \<open>\<open>/^[A-Za-z0-9+/]+=*$/\<close>\<close>

definition base64Pattern :: regex where
  "base64Pattern =
     Seq Bol (Seq (Plus (Class [Range 65 90, Range 97 122, Range 48 57, Ch 43, Ch 47]))
               (Seq (Star (Lit (js ''=''))) Eol))"

text \<open>\<open>data.replace(/\s/g, '')\<close>\<close>

definition removeWhiteSpace :: "jsstring \<Rightarrow> jsstring" where
  "removeWhiteSpace data = filter (\<lambda>c. \<not> isWhiteSpace c) data"

definition isLikelyBase64 :: "jsstring \<Rightarrow> bool" where
  "isLikelyBase64 data =
     (let cleaned = removeWhiteSpace data in
        if length cleaned < 20 then False
        else if \<not> regexTest False base64Pattern cleaned then False
        else length cleaned mod 4 = 0 \<or> length cleaned mod 4 \<le> 2)"

text \<open>\<open>/^[A-Fa-f0-9]+$/\<close>\<close>

definition hexPattern :: regex where
  "hexPattern = Seq Bol (Seq (Plus (Class [Range 65 70, Range 97 102, Range 48 57])) Eol)"

definition isLikelyHex :: "jsstring \<Rightarrow> bool" where
  "isLikelyHex data =
     (let cleaned = removeWhiteSpace data in
        length cleaned \<ge> 32 \<and> length cleaned mod 2 = 0 \<and> regexTest False hexPattern cleaned)"

text \<open>
  \<open>x.toFixed(2)\<close> for a non-negative number: the nearest multiple of 1/100, the
  larger one at a tie, with two digits after the point.
\<close>

definition toFixed2 :: "real \<Rightarrow> jsstring" where
  "toFixed2 x =
     (let n = nat \<lfloor>x * 100 + 1 / 2\<rfloor> in
        numberToString (n div 100) @ js ''.'' @ [48 + (n div 10) mod 10, 48 + n mod 10])"

definition createEntropyFinding :: "real \<Rightarrow> EntropyLevel \<Rightarrow> jsstring \<Rightarrow> jsstring \<Rightarrow> Finding" where
  "createEntropyFinding entropy level filePath' sample =
     (if level = Critical
      then \<lparr> riskLevel = RED, filePath = filePath',
             description = js ''Critical entropy ('' @ toFixed2 entropy
               @ js '') - likely encrypted or heavily obfuscated'',
             lineNumber = None,
             matchedContent = Some (take 50 sample),
             category = ENTROPY \<rparr>
      else \<lparr> riskLevel = YELLOW, filePath = filePath',
             description = js ''High entropy ('' @ toFixed2 entropy
               @ js '') detected - possible obfuscation'',
             lineNumber = None,
             matchedContent = Some (take 50 sample),
             category = ENTROPY \<rparr>)"

text \<open>
  One pass of the body of the sliding-window loop at offset \<open>i\<close>: the set
  \<open>highEntropyRegions\<close> and the list \<open>findings\<close> after it.
\<close>

definition entropyWindow ::
  "jsstring \<Rightarrow> jsstring \<Rightarrow> nat \<Rightarrow> nat \<Rightarrow> nat set \<times> Finding list \<Rightarrow> nat set \<times> Finding list" where
  "entropyWindow content' filePath' windowSize i st =
     (let window = slice content' i (i + windowSize);
          entropy = calculateEntropy window;
          level = classifyEntropy entropy;
          regionKey = i div (windowSize * 2)
      in if regionKey \<in> fst st then st
         else if level = Critical then
           (insert regionKey (fst st),
            snd st @ [\<lparr> riskLevel = RED, filePath = filePath',
                        description = js ''Critical entropy ('' @ toFixed2 entropy
                          @ js '') detected - likely encrypted or heavily obfuscated'',
                        lineNumber = None,
                        matchedContent = Some (take 50 window @ js ''...''),
                        category = ENTROPY \<rparr>])
         else if level = High then
           (if isLikelyBase64 window then
              (insert regionKey (fst st),
               snd st @ [\<lparr> riskLevel = YELLOW, filePath = filePath',
                           description = js ''High entropy base64 data ('' @ toFixed2 entropy
                             @ js '') - review for hidden content'',
                           lineNumber = None,
                           matchedContent = Some (take 50 window @ js ''...''),
                           category = ENTROPY \<rparr>])
            else if \<not> isLikelyHex window then
              (insert regionKey (fst st),
               snd st @ [\<lparr> riskLevel = YELLOW, filePath = filePath',
                           description = js ''High entropy ('' @ toFixed2 entropy
                             @ js '') detected - possible obfuscation'',
                           lineNumber = None,
                           matchedContent = Some (take 50 window @ js ''...''),
                           category = ENTROPY \<rparr>])
            else st)
         else st)"

text \<open>
  \<open>for (let i = 0; i < content.length - windowSize; i += stepSize)\<close>, for a positive
  step. The loop is entered only when the content is at least as long as the window.
\<close>

function entropyLoop ::
  "jsstring \<Rightarrow> jsstring \<Rightarrow> nat \<Rightarrow> nat \<Rightarrow> nat \<Rightarrow> nat set \<times> Finding list \<Rightarrow> nat set \<times> Finding list" where
  "entropyLoop content' filePath' windowSize stepSize i st =
     (if 0 < stepSize \<and> i < length content' - windowSize
      then entropyLoop content' filePath' windowSize stepSize (i + stepSize)
             (entropyWindow content' filePath' windowSize i st)
      else st)"
  by pat_completeness auto
termination
  by (relation "measure (\<lambda>(content', filePath', windowSize, stepSize, i, st).
                          length content' - windowSize - i)") auto

declare entropyLoop.simps [simp del]

text \<open>The list \<open>findings\<close> when the loop has ended.\<close>

definition entropyRawFindings :: "jsstring \<Rightarrow> jsstring \<Rightarrow> nat \<Rightarrow> nat \<Rightarrow> Finding list" where
  "entropyRawFindings content' filePath' windowSize stepSize =
     snd (entropyLoop content' filePath' windowSize stepSize 0 ({}, []))"

text \<open>The cut of the findings at the end of \<open>scanForHighEntropy\<close>.\<close>

definition entropySummary :: "jsstring \<Rightarrow> nat \<Rightarrow> Finding" where
  "entropySummary filePath' n =
     \<lparr> riskLevel = YELLOW, filePath = filePath',
       description = numberToString n @ js '' additional high entropy regions detected'',
       lineNumber = None, matchedContent = None, category = ENTROPY \<rparr>"

definition limitEntropyFindings :: "jsstring \<Rightarrow> Finding list \<Rightarrow> Finding list" where
  "limitEntropyFindings filePath' fs =
     (if length fs > 5 then
        (let criticalFindings = filter (\<lambda>f. riskLevel f = RED) fs;
             yellowFindings = filter (\<lambda>f. riskLevel f = YELLOW) fs;
             limitedFindings = take 3 criticalFindings @ take 2 yellowFindings
         in if length fs > length limitedFindings
            then limitedFindings
                 @ [entropySummary filePath' (length fs - length limitedFindings)]
            else limitedFindings)
      else fs)"

text \<open>
  \<open>scanForHighEntropy(content, filePath, windowSize = 100, stepSize = 50)\<close>. With a
  step of 0 and a content longer than the window the loop of the source never ends:
  the result is \<open>None\<close>.
\<close>

definition scanForHighEntropy ::
  "jsstring \<Rightarrow> jsstring \<Rightarrow> nat \<Rightarrow> nat \<Rightarrow> Finding list option" where
  "scanForHighEntropy content' filePath' windowSize stepSize =
     (if length content' < windowSize then
        (let entropy = calculateEntropy content';
             level = classifyEntropy entropy
         in if level = Critical \<or> level = High
            then Some [createEntropyFinding entropy level filePath' content']
            else Some [])
      else if stepSize = 0 \<and> 0 < length content' - windowSize then None
      else Some (limitEntropyFindings filePath'
                   (entropyRawFindings content' filePath' windowSize stepSize)))"

section \<open>heuristics/recursiveGuard\<close>

text \<open>A sequence and a choice of several patterns.\<close>

fun seqs :: "regex list \<Rightarrow> regex" where
  "seqs [] = Lit []"
| "seqs [r] = r"
| "seqs (r # rs) = Seq r (seqs rs)"

fun alts :: "regex list \<Rightarrow> regex" where
  "alts [] = Lit []"
| "alts [r] = r"
| "alts (r # rs) = Alt r (alts rs)"

definition ws :: regex where
  "ws = Class [Space]"

text \<open>
  SECONDARY_SCRIPT_PATTERNS: the categories in the order of the object, each with its
  patterns; all of them have the flags \<open>gi\<close>. The code units written as numbers are
  34 (double quote), 39 (single quote) and 96 (backquote).
\<close>

definition shellPatterns :: "regex list" where
  "shellPatterns =
     [seqs [Lit (js ''curl''), Plus ws, Star AnyChar, Lit (js ''|''), Star ws,
            alts [Lit (js ''bash''), Lit (js ''sh''), Lit (js ''zsh'')]],
      seqs [Lit (js ''wget''), Plus ws, Star AnyChar, Lit (js ''-O''), Star ws, Lit (js ''-''),
            Star ws, Lit (js ''|''), Star ws, alts [Lit (js ''bash''), Lit (js ''sh'')]],
      seqs [Lit (js ''$(curl''), Plus ws, Plus (NotClass [Ch 41]), Lit (js '')'')],
      seqs [Lit [96], Lit (js ''curl''), Plus ws, Plus (NotClass [Ch 96]), Lit [96]],
      seqs [Lit (js ''source''), Plus ws, Lit (js ''<(curl'')],
      seqs [Lit (js ''eval''), Plus ws, Lit [34], Lit (js ''$(curl'')]]"

definition powershellPatterns :: "regex list" where
  "powershellPatterns =
     [seqs [Lit (js ''Invoke-Expression''), Star ws, Lit (js ''(''), Star ws, Opt (Lit (js ''('')),
            Star ws, Lit (js ''New-Object'')],
      seqs [Lit (js ''IEX''), Star ws, Lit (js ''(''), Star ws, Opt (Lit (js ''('')),
            Star ws, Lit (js ''New-Object'')],
      seqs [Lit (js ''[System.Net.WebClient]''), Star AnyChar, Lit (js ''DownloadString'')],
      seqs [Lit (js ''Invoke-WebRequest''), Star AnyChar, Lit (js ''|''), Star ws,
            Lit (js ''Invoke-Expression'')],
      seqs [Lit (js ''iwr''), Star AnyChar, Lit (js ''|''), Star ws, Lit (js ''iex'')]]"

definition nodePatterns :: "regex list" where
  "nodePatterns =
     [seqs [Lit (js ''eval''), Star ws, Lit (js ''(''), Star ws, Lit (js ''require''), Star ws,
            Lit (js ''('')],
      seqs [Lit (js ''new''), Plus ws, Lit (js ''Function''), Star ws, Lit (js ''(''),
            Star (NotClass [Ch 41]), Lit (js ''require'')],
      seqs [Lit (js ''child_process''), Star AnyChar, Lit (js ''exec''), Star AnyChar,
            Lit (js ''${'')],
      seqs [Lit (js ''require''), Star ws, Lit (js ''(''), Star ws, Class [Ch 39, Ch 34],
            Lit (js ''child_process''), Class [Ch 39, Ch 34], Star ws, Lit (js '')'')]]"

definition pythonPatterns :: "regex list" where
  "pythonPatterns =
     [seqs [Lit (js ''exec''), Star ws, Lit (js ''(''), Star ws, Lit (js ''urllib'')],
      seqs [Lit (js ''exec''), Star ws, Lit (js ''(''), Star ws, Lit (js ''requests.get'')],
      seqs [Lit (js ''eval''), Star ws, Lit (js ''(''), Star ws, Lit (js ''base64.b64decode'')],
      seqs [Lit (js ''__import__''), Star ws, Lit (js ''(''), Star ws, Class [Ch 39, Ch 34],
            Lit (js ''urllib'')]]"

definition dynamicPatterns :: "regex list" where
  "dynamicPatterns =
     [seqs [Lit (js ''import''), Star ws, Lit (js ''(''), Star ws, Class [Ch 39, Ch 34, Ch 96],
            Star (NotClass [Ch 39, Ch 34, Ch 96]), Lit (js ''${'')],
      seqs [Lit (js ''require''), Star ws, Lit (js ''(''), Star ws, NotClass [Ch 39, Ch 34]],
      seqs [WordBoundary, Lit (js ''importlib.import_module''), Star ws, Lit (js ''('')]]"

definition SECONDARY_SCRIPT_PATTERNS :: "(jsstring \<times> regex list) list" where
  "SECONDARY_SCRIPT_PATTERNS =
     [(js ''shell'', shellPatterns),
      (js ''powershell'', powershellPatterns),
      (js ''node'', nodePatterns),
      (js ''python'', pythonPatterns),
      (js ''dynamic'', dynamicPatterns)]"

text \<open>\<open>[...new Set(xs)]\<close>: the first occurrence of every element, in order.\<close>

definition uniqueInOrder :: "'a list \<Rightarrow> 'a list" where
  "uniqueInOrder xs = rev (remdups (rev xs))"

text \<open>\<open>/https?:\/\/[^\s"'`<>)\]]+/gi\<close>\<close>

definition urlPattern :: regex where
  "urlPattern =
     seqs [Lit (js ''http''), Opt (Lit (js ''s'')), Lit (js ''://''),
           Plus (NotClass [Space, Ch 34, Ch 39, Ch 96, Ch 60, Ch 62, Ch 41, Ch 93])]"

definition extractUrls :: "jsstring \<Rightarrow> jsstring list" where
  "extractUrls content' = uniqueInOrder (matchAll True urlPattern content')"

text \<open>
  \<open>url.toLowerCase()\<close>. The ASCII capitals are lowered. Two code units outside ASCII
  lower to ASCII letters: U+0130 to \<open>i\<close> followed by U+0307, and U+212A to \<open>k\<close>. Every
  other code unit outside ASCII lowers to code units outside ASCII; the model leaves
  them as they are, which no search for an ASCII text tells apart.
\<close>

definition lowerChar :: "nat \<Rightarrow> jsstring" where
  "lowerChar c =
     (if 65 \<le> c \<and> c \<le> 90 then [c + 32]
      else if c = 0x130 then [0x69, 0x307]
      else if c = 0x212A then [0x6B]
      else [c])"

definition toLowerCase :: "jsstring \<Rightarrow> jsstring" where
  "toLowerCase s = concat (map lowerChar s)"

definition isSuspiciousUrl :: "jsstring \<Rightarrow> bool" where
  "isSuspiciousUrl url' =
     (let lowerUrl = toLowerCase url' in
        includes' lowerUrl (js ''.sh'') \<or>
        includes' lowerUrl (js ''.ps1'') \<or>
        includes' lowerUrl (js ''.py'') \<or>
        includes' lowerUrl (js ''.rb'') \<or>
        includes' lowerUrl (js ''raw.'') \<or>
        includes' lowerUrl (js ''pastebin'') \<or>
        includes' lowerUrl (js ''paste.'') \<or>
        includes' lowerUrl (js ''hastebin'') \<or>
        includes' lowerUrl (js ''gist.''))"

text \<open>The findings of one category: for each pattern, one finding for each match.\<close>

definition secondaryFinding :: "jsstring \<Rightarrow> jsstring \<Rightarrow> jsstring \<Rightarrow> Finding" where
  "secondaryFinding filePath' cat m =
     \<lparr> riskLevel = RED, filePath = filePath',
       description = js ''Secondary script execution pattern ('' @ cat
         @ js ''): downloads and executes remote code'',
       lineNumber = None,
       matchedContent = Some (take 100 m),
       category = VSCODE \<rparr>"

definition categoryFindings :: "jsstring \<Rightarrow> jsstring \<Rightarrow> jsstring \<times> regex list \<Rightarrow> Finding list" where
  "categoryFindings content' filePath' entry =
     concat (map (\<lambda>pattern. map (secondaryFinding filePath' (fst entry))
                                (matchAll True pattern content'))
               (snd entry))"

text \<open>The findings before the cut: the execution patterns, or else the URL warning.\<close>

definition secondaryRawFindings :: "jsstring \<Rightarrow> jsstring \<Rightarrow> Finding list" where
  "secondaryRawFindings content' filePath' =
     (let findings0 = concat (map (categoryFindings content' filePath') SECONDARY_SCRIPT_PATTERNS);
          urls = extractUrls content';
          suspiciousUrls = filter isSuspiciousUrl urls
      in if length suspiciousUrls > 0 \<and> length findings0 = 0
         then findings0
              @ [\<lparr> riskLevel = YELLOW, filePath = filePath',
                    description = js ''References to potentially executable remote content'',
                    lineNumber = None,
                    matchedContent = Some (join (js '', '') (take 3 suspiciousUrls)),
                    category = VSCODE \<rparr>]
         else findings0)"

definition secondarySummary :: "jsstring \<Rightarrow> nat \<Rightarrow> Finding" where
  "secondarySummary filePath' n =
     \<lparr> riskLevel = YELLOW, filePath = filePath',
       description = numberToString n @ js '' additional secondary script patterns detected'',
       lineNumber = None, matchedContent = None, category = VSCODE \<rparr>"

definition limitSecondaryFindings :: "jsstring \<Rightarrow> Finding list \<Rightarrow> Finding list" where
  "limitSecondaryFindings filePath' fs =
     (if length fs > 5 then take 5 fs @ [secondarySummary filePath' (length fs - 5)]
      else fs)"

definition scanForSecondaryScripts :: "jsstring \<Rightarrow> jsstring \<Rightarrow> Finding list" where
  "scanForSecondaryScripts content' filePath' =
     limitSecondaryFindings filePath' (secondaryRawFindings content' filePath')"

text \<open>The quick patterns of \<open>needsDeepInspection\<close>, all with the flag \<open>i\<close>.\<close>

definition quickPatterns :: "regex list" where
  "quickPatterns =
     [seqs [Lit (js ''curl''), Star AnyChar, Lit (js ''|'')],
      seqs [Lit (js ''wget''), Star AnyChar, Lit (js ''-O''), Star AnyChar, Lit (js ''-'')],
      Lit (js ''Invoke-Expression''),
      seqs [Lit (js ''IEX''), Star ws, Lit (js ''('')],
      seqs [Lit (js ''eval''), Star ws, Lit (js ''('')],
      seqs [Lit (js ''exec''), Star ws, Lit (js ''('')],
      Lit (js ''child_process''),
      Lit (js ''__import__'')]"

definition needsDeepInspection :: "jsstring \<Rightarrow> bool" where
  "needsDeepInspection content' = list_ex (\<lambda>p. regexTest True p content') quickPatterns"

section \<open>heuristics/patterns/github\<close>

text \<open>The locals of \<open>scan\<close> that the callback of \<open>lines.forEach\<close> updates.\<close>

record WorkflowState =
  hasPullRequestTarget :: bool
  hasWorkflowRun :: bool
  hasCheckout :: bool
  checkoutRef :: jsstring
  lineFindings :: "Finding list"

definition appliesTo :: "jsstring \<Rightarrow> bool" where
  "appliesTo filePath' =
     (includes' filePath' (js ''.github/workflows/'')
      \<and> (endsWith filePath' (js ''.yml'') \<or> endsWith filePath' (js ''.yaml'')))"

text \<open>
  The look-ahead for the \<open>ref:\<close> parameter of a checkout step:
  \<open>for (let i = index + 1; i < Math.min(index + 10, lines.length); i++)\<close>.
  \<open>None\<close> when the loop ends without assigning \<open>checkoutRef\<close>.
\<close>

function lookAheadRef :: "jsstring list \<Rightarrow> nat \<Rightarrow> nat \<Rightarrow> jsstring option" where
  "lookAheadRef lines i bound =
     (if i < bound then
        (if startsWith (trim (lines ! i)) (js ''ref:'') then Some (trim (lines ! i))
         else if startsWith (trim (lines ! i)) (js ''-'')
                 \<or> startsWith (trim (lines ! i)) (js ''uses:'') then None
         else lookAheadRef lines (i + 1) bound)
      else None)"
  by pat_completeness auto
termination
  by (relation "measure (\<lambda>(lines, i, bound). bound - i)") auto

declare lookAheadRef.simps [simp del]

text \<open>
  \<open>isInRunBlock\<close>:
  \<open>for (let i = currentIndex; i >= Math.max(0, currentIndex - 20); i--)\<close>.
\<close>

function isInRunBlockFrom :: "jsstring list \<Rightarrow> nat \<Rightarrow> nat \<Rightarrow> bool" where
  "isInRunBlockFrom lines lo i =
     (if lo \<le> i then
        (if startsWith (trim (lines ! i)) (js ''run:'') \<or> trim (lines ! i) = js ''run: |''
            \<or> startsWith (trim (lines ! i)) (js ''- run:'') then True
         else if startsWith (trim (lines ! i)) (js ''- uses:'')
                 \<or> startsWith (trim (lines ! i)) (js ''uses:'')
                 \<or> startsWith (trim (lines ! i)) (js ''- name:'')
                 \<or> startsWith (trim (lines ! i)) (js ''steps:'') then False
         else if i = 0 then False
         else isInRunBlockFrom lines lo (i - 1))
      else False)"
  by pat_completeness auto
termination
  by (relation "measure (\<lambda>(lines, lo, i). i)") auto

declare isInRunBlockFrom.simps [simp del]

definition isInRunBlock :: "jsstring list \<Rightarrow> nat \<Rightarrow> bool" where
  "isInRunBlock lines currentIndex = isInRunBlockFrom lines (currentIndex - 20) currentIndex"

text \<open>
  \<open>/echo\s+.*\$\{\{\s*secrets\./\<close>, \<open>/printf.*\$\{\{\s*secrets\./\<close>,
  \<open>/cat.*\$\{\{\s*secrets\./\<close>, \<open>/>>?\s*\$GITHUB_OUTPUT.*\$\{\{\s*secrets\./\<close>
\<close>

definition outputPatterns :: "regex list" where
  "outputPatterns =
     [seqs [Lit (js ''echo''), Plus ws, Star AnyChar, Lit (js ''${{''), Star ws, Lit (js ''secrets.'')],
      seqs [Lit (js ''printf''), Star AnyChar, Lit (js ''${{''), Star ws, Lit (js ''secrets.'')],
      seqs [Lit (js ''cat''), Star AnyChar, Lit (js ''${{''), Star ws, Lit (js ''secrets.'')],
      seqs [Lit (js ''>''), Opt (Lit (js ''>'')), Star ws, Lit (js ''$GITHUB_OUTPUT''), Star AnyChar,
            Lit (js ''${{''), Star ws, Lit (js ''secrets.'')]]"

definition hasSecretsExposure :: "jsstring \<Rightarrow> bool" where
  "hasSecretsExposure line = list_ex (\<lambda>p. regexTest False p line) outputPatterns"

text \<open>
  \<open>hasUnpinnedAction\<close>: the action reference is the group of
  \<open>/uses:\s*([^\s]+)/\<close>; then \<open>/@[a-f0-9]{40}$/\<close>, \<open>/@(main|master)$/\<close> and
  \<open>/@v?\d+(\.\d+)*$/\<close>.
\<close>

definition hasUnpinnedAction :: "jsstring \<Rightarrow> bool" where
  "hasUnpinnedAction line =
     (case matchGroup False (Seq (Lit (js ''uses:'')) (Star ws)) (Plus (NotClass [Space])) line of
        None \<Rightarrow> False
      | Some actionRef \<Rightarrow>
          if regexTest False
               (seqs [Lit (js ''@''), Repeat 40 (Class [Range 97 102, Range 48 57]), Eol]) actionRef
          then False
          else if regexTest False
               (seqs [Lit (js ''@''), Alt (Lit (js ''main'')) (Lit (js ''master'')), Eol]) actionRef
          then True
          else if regexTest False
               (seqs [Lit (js ''@''), Opt (Lit (js ''v'')), Plus (Class [Digit]),
                      Star (Seq (Lit (js ''.'')) (Plus (Class [Digit]))), Eol]) actionRef
          then False
          else if \<not> includes' actionRef (js ''@'') then True
          else False)"

text \<open>\<open>/eval\s+/\<close>, \<open>/\$\(.*\$\{\{/\<close>, \<open>/`.*\$\{\{/\<close>\<close>

definition dangerousPatterns :: "regex list" where
  "dangerousPatterns =
     [seqs [Lit (js ''eval''), Plus ws],
      seqs [Lit (js ''$(''), Star AnyChar, Lit (js ''${{'')],
      seqs [Lit [96], Star AnyChar, Lit (js ''${{'')]]"

definition hasDangerousShellPattern :: "jsstring \<Rightarrow> bool" where
  "hasDangerousShellPattern line = list_ex (\<lambda>p. regexTest False p line) dangerousPatterns"

definition lineFinding :: "RiskLevel \<Rightarrow> jsstring \<Rightarrow> nat \<Rightarrow> jsstring \<Rightarrow> jsstring \<Rightarrow> Finding" where
  "lineFinding r filePath' lineNum d m =
     \<lparr> riskLevel = r, filePath = filePath', description = d, lineNumber = Some lineNum,
       matchedContent = Some m, category = GITHUB_ACTIONS \<rparr>"

text \<open>The finding of a line that mentions the trigger \<open>pull_request_target\<close>.\<close>

definition triggerFinding :: "jsstring \<Rightarrow> nat \<Rightarrow> jsstring \<Rightarrow> Finding" where
  "triggerFinding filePath' lineNum trimmedLine =
     lineFinding YELLOW filePath' lineNum
       (js ''pull_request_target event detected - review for pwn-request vulnerability'')
       trimmedLine"

text \<open>The callback of \<open>lines.forEach((line, index) => ...)\<close>.\<close>

definition scanLine :: "jsstring list \<Rightarrow> jsstring \<Rightarrow> WorkflowState \<Rightarrow> nat \<Rightarrow> WorkflowState" where
  "scanLine lines filePath' st index =
     (let lineNum = index + 1;
          trimmedLine = trim (lines ! index);
          st1 = (if includes' trimmedLine (js ''pull_request_target'')
                 then st\<lparr> hasPullRequestTarget := True,
                          lineFindings := lineFindings st
                            @ [triggerFinding filePath' lineNum trimmedLine] \<rparr>
                 else st);
          st2 = (if includes' trimmedLine (js ''workflow_run'')
                 then st1\<lparr> hasWorkflowRun := True \<rparr> else st1);
          st3 = (if includes' trimmedLine (js ''actions/checkout'')
                 then st2\<lparr> hasCheckout := True,
                           checkoutRef :=
                             (case lookAheadRef lines (index + 1) (min (index + 10) (length lines)) of
                                Some r \<Rightarrow> r
                              | None \<Rightarrow> checkoutRef st2) \<rparr>
                 else st2);
          injections =
            concat (map (\<lambda>context'.
                      if includes' trimmedLine context' \<and> isInRunBlock lines index
                      then [lineFinding RED filePath' lineNum
                              (js ''Potential command injection via '' @ context')
                              (take 100 trimmedLine)]
                      else [])
                    INJECTABLE_CONTEXTS);
          secrets =
            (if hasSecretsExposure trimmedLine
             then [lineFinding RED filePath' lineNum (js ''Potential secrets exposure in output'')
                     (take 100 trimmedLine)]
             else []);
          unpinned =
            (if includes' trimmedLine (js ''uses:'') \<and> hasUnpinnedAction trimmedLine
             then [lineFinding YELLOW filePath' lineNum
                     (js ''Unpinned action version - consider pinning to a specific SHA'')
                     trimmedLine]
             else []);
          dangerous =
            (if hasDangerousShellPattern trimmedLine
             then [lineFinding YELLOW filePath' lineNum (js ''Dangerous shell pattern detected'')
                     (take 100 trimmedLine)]
             else []);
          curlPipe =
            (if includes' trimmedLine (js ''curl'')
                \<and> (includes' trimmedLine (js ''| bash'') \<or> includes' trimmedLine (js ''| sh''))
             then [lineFinding RED filePath' lineNum
                     (js ''curl piped to shell - potential code execution from remote source'')
                     (take 100 trimmedLine)]
             else [])
      in st3\<lparr> lineFindings :=
                lineFindings st3 @ injections @ secrets @ unpinned @ dangerous @ curlPipe \<rparr>)"

definition initialWorkflowState :: WorkflowState where
  "initialWorkflowState =
     \<lparr> hasPullRequestTarget = False, hasWorkflowRun = False, hasCheckout = False,
       checkoutRef = [], lineFindings = [] \<rparr>"

definition pwnRequestFinding :: "jsstring \<Rightarrow> Finding" where
  "pwnRequestFinding filePath' =
     \<lparr> riskLevel = RED, filePath = filePath',
       description = js ''Pwn-request vulnerability: pull_request_target with PR checkout allows arbitrary code execution'',
       lineNumber = None,
       matchedContent = Some (js ''pull_request_target + checkout PR ref''),
       category = GITHUB_ACTIONS \<rparr>"

definition workflowRunFinding :: "jsstring \<Rightarrow> Finding" where
  "workflowRunFinding filePath' =
     \<lparr> riskLevel = YELLOW, filePath = filePath',
       description = js ''workflow_run event with workflow_run context - review for privilege escalation'',
       lineNumber = None,
       matchedContent = None,
       category = GITHUB_ACTIONS \<rparr>"

text \<open>The state after \<open>lines.forEach\<close>.\<close>

definition scanLines :: "jsstring \<Rightarrow> jsstring \<Rightarrow> WorkflowState" where
  "scanLines content' filePath' =
     foldl (scanLine (split 10 content') filePath') initialWorkflowState
       [0..<length (split 10 content')]"

definition isPwnRequest :: "WorkflowState \<Rightarrow> bool" where
  "isPwnRequest st =
     (hasPullRequestTarget st \<and> hasCheckout st
      \<and> (includes' (checkoutRef st) (js ''pull_request'')
          \<or> includes' (checkoutRef st) (js ''head.ref'')
          \<or> includes' (checkoutRef st) (js ''head.sha'')))"

text \<open>\<open>GitHubActionsScanner.scan\<close>, and \<open>scanGitHubActions\<close> that calls it.\<close>

definition scanGitHubActions :: "jsstring \<Rightarrow> jsstring \<Rightarrow> Finding list" where
  "scanGitHubActions content' filePath' =
     (let st = scanLines content' filePath';
          findings1 = (if isPwnRequest st
                       then lineFindings st @ [pwnRequestFinding filePath']
                       else lineFindings st);
          findings2 = (if hasWorkflowRun st \<and> includes' content' (js ''github.event.workflow_run'')
                       then findings1 @ [workflowRunFinding filePath']
                       else findings1)
      in findings2)"

section \<open>heuristics/riskClassifier\<close>

definition determineOverallRisk :: "Finding list \<Rightarrow> RiskLevel" where
  "determineOverallRisk fs =
     (if length fs = 0 then GREEN
      else if list_ex (\<lambda>f. riskLevel f = RED) fs then RED
      else if list_ex (\<lambda>f. riskLevel f = YELLOW) fs then YELLOW
      else GREEN)"

text \<open>The key of the \<open>seen\<close> set: \<open>`${riskLevel}:${filePath}:${description}`\<close>.\<close>

definition findingKey :: "Finding \<Rightarrow> jsstring" where
  "findingKey f =
     riskLevelString (riskLevel f) @ js '':'' @ filePath f @ js '':'' @ description f"

text \<open>The loop of \<open>deduplicateFindings\<close>, with its two locals \<open>seen\<close> and \<open>unique\<close>.\<close>

fun deduplicateLoop :: "jsstring set \<Rightarrow> Finding list \<Rightarrow> Finding list \<Rightarrow> Finding list" where
  "deduplicateLoop seen unique [] = unique"
| "deduplicateLoop seen unique (f # fs) =
     (if findingKey f \<notin> seen
      then deduplicateLoop (insert (findingKey f) seen) (unique @ [f]) fs
      else deduplicateLoop seen unique fs)"

definition deduplicateFindings :: "Finding list \<Rightarrow> Finding list" where
  "deduplicateFindings fs = deduplicateLoop {} [] fs"

definition aggregateFindings :: "Finding list list \<Rightarrow> Finding list" where
  "aggregateFindings findingsArrays = deduplicateFindings (concat findingsArrays)"

fun severityOrder :: "RiskLevel \<Rightarrow> nat" where
  "severityOrder RED = 0"
| "severityOrder YELLOW = 1"
| "severityOrder GREEN = 2"

text \<open>
  \<open>[...findings].sort((a, b) => severityOrder[a] - severityOrder[b])\<close>: the sort of
  the language is stable, as is the insertion sort \<open>sort_key\<close>.
\<close>

definition sortFindingsBySeverity :: "Finding list \<Rightarrow> Finding list" where
  "sortFindingsBySeverity fs = sort_key (\<lambda>f. severityOrder (riskLevel f)) fs"

text \<open>\<open>Date.now()\<close> is the parameter \<open>now\<close>.\<close>

definition createScanResult ::
  "Finding list \<Rightarrow> jsstring list \<Rightarrow> jsstring list \<Rightarrow> RepositoryInfo \<Rightarrow> nat \<Rightarrow> ScanResult" where
  "createScanResult fs scanned skipped repository' now =
     \<lparr> overallRisk = determineOverallRisk fs,
       findings = sortFindingsBySeverity fs,
       scannedFiles = scanned,
       skippedFiles = skipped,
       timestamp = now,
       repository = repository' \<rparr>"

section \<open>utils/filePathMatcher and heuristics/index\<close>

datatype ScannerType = Vscode | Npm | Python | Rust | Github

definition getScannerType :: "jsstring \<Rightarrow> ScannerType option" where
  "getScannerType filePath' =
     (if includes' filePath' (js ''.vscode/'') \<and> endsWith filePath' (js ''tasks.json'')
      then Some Vscode
      else if endsWith filePath' (js ''package.json'') then Some Npm
      else if endsWith filePath' (js ''setup.py'') \<or> endsWith filePath' (js ''pyproject.toml'')
      then Some Python
      else if endsWith filePath' (js ''Cargo.toml'') \<or> includes' filePath' (js ''.cargo/config'')
      then Some Rust
      else if includes' filePath' (js ''.github/workflows/'')
              \<and> (endsWith filePath' (js ''.yml'') \<or> endsWith filePath' (js ''.yaml''))
      then Some Github
      else None)"

record HeuristicsConfig =
  enableEntropyScan :: bool
  enableHomoglyphScan :: bool
  enableSecondaryScriptScan :: bool

text \<open>\<open>Partial<HeuristicsConfig>\<close>: every key may be absent.\<close>

record PartialHeuristicsConfig =
  entropyScanOption :: "bool option"
  homoglyphScanOption :: "bool option"
  secondaryScriptScanOption :: "bool option"

definition DEFAULT_CONFIG :: HeuristicsConfig where
  "DEFAULT_CONFIG =
     \<lparr> enableEntropyScan = True, enableHomoglyphScan = True, enableSecondaryScriptScan = True \<rparr>"

text \<open>\<open>{ ...DEFAULT_CONFIG, ...config }\<close>\<close>

definition mergeConfig :: "PartialHeuristicsConfig \<Rightarrow> HeuristicsConfig" where
  "mergeConfig config =
     \<lparr> enableEntropyScan =
         (case entropyScanOption config of Some b \<Rightarrow> b
          | None \<Rightarrow> enableEntropyScan DEFAULT_CONFIG),
       enableHomoglyphScan =
         (case homoglyphScanOption config of Some b \<Rightarrow> b
          | None \<Rightarrow> enableHomoglyphScan DEFAULT_CONFIG),
       enableSecondaryScriptScan =
         (case secondaryScriptScanOption config of Some b \<Rightarrow> b
          | None \<Rightarrow> enableSecondaryScriptScan DEFAULT_CONFIG) \<rparr>"

text \<open>
  The scanners of the task configuration, the package manifest, the Python build files
  and the Rust build files parse JSON and TOML. They are parameters of the engine: each
  maps a content and a path to findings.
\<close>

record Scanners =
  scanVSCodeTasks :: "jsstring \<Rightarrow> jsstring \<Rightarrow> Finding list"
  scanNPMPackage :: "jsstring \<Rightarrow> jsstring \<Rightarrow> Finding list"
  scanPython :: "jsstring \<Rightarrow> jsstring \<Rightarrow> Finding list"
  scanRust :: "jsstring \<Rightarrow> jsstring \<Rightarrow> Finding list"

text \<open>
  \<open>scanFile\<close>. The entropy scan is called with its default window 100 and step 50,
  with which it always returns.
\<close>

definition scanFile :: "Scanners \<Rightarrow> FileContent \<Rightarrow> PartialHeuristicsConfig \<Rightarrow> Finding list" where
  "scanFile sc file config =
     (let mergedConfig = mergeConfig config in
        if \<not> exists file \<or> content file = [] then []
        else
          (let pattern =
                 (case getScannerType (path file) of
                    Some Vscode \<Rightarrow> scanVSCodeTasks sc (content file) (path file)
                  | Some Npm \<Rightarrow> scanNPMPackage sc (content file) (path file)
                  | Some Python \<Rightarrow> scanPython sc (content file) (path file)
                  | Some Rust \<Rightarrow> scanRust sc (content file) (path file)
                  | Some Github \<Rightarrow> scanGitHubActions (content file) (path file)
                  | None \<Rightarrow> []);
               homoglyph =
                 (if enableHomoglyphScan mergedConfig \<and> needsHomoglyphScan (content file)
                  then scanForHomoglyphs (content file) (path file) else []);
               entropy =
                 (if enableEntropyScan mergedConfig
                  then (case scanForHighEntropy (content file) (path file) 100 50 of
                          Some fs \<Rightarrow> fs | None \<Rightarrow> [])
                  else []);
               secondary =
                 (if enableSecondaryScriptScan mergedConfig \<and> needsDeepInspection (content file)
                  then scanForSecondaryScripts (content file) (path file) else [])
           in pattern @ homoglyph @ entropy @ secondary))"

definition scanFiles :: "Scanners \<Rightarrow> FileContent list \<Rightarrow> PartialHeuristicsConfig \<Rightarrow> Finding list" where
  "scanFiles sc files config = aggregateFindings (map (\<lambda>file. scanFile sc file config) files)"

text \<open>
  The loop of \<open>scanRepository\<close> over the files, with its three arrays
  \<open>scannedFiles\<close>, \<open>skippedFiles\<close> and \<open>allFindings\<close>.
\<close>

fun scanRepositoryLoop ::
  "Scanners \<Rightarrow> PartialHeuristicsConfig \<Rightarrow> FileContent list
     \<Rightarrow> jsstring list \<times> jsstring list \<times> Finding list list
     \<Rightarrow> jsstring list \<times> jsstring list \<times> Finding list list" where
  "scanRepositoryLoop sc config [] acc = acc"
| "scanRepositoryLoop sc config (file # files) (scanned, skipped, allFindings) =
     (if exists file \<and> content file \<noteq> []
      then scanRepositoryLoop sc config files
             (scanned @ [path file], skipped, allFindings @ [scanFile sc file config])
      else scanRepositoryLoop sc config files (scanned, skipped @ [path file], allFindings))"

definition unableToFetchFinding :: "RepositoryInfo \<Rightarrow> jsstring list \<Rightarrow> Finding" where
  "unableToFetchFinding repository' skipped =
     \<lparr> riskLevel = YELLOW, filePath = url repository',
       description = js ''Unable to fetch files for scanning. This may be due to GitHub rate limiting, or the files don''
         @ [39] @ js ''t exist at the expected paths.'',
       lineNumber = None,
       matchedContent = Some (numberToString (length skipped) @ js '' file(s): ''
                                @ join (js '', '') (take 3 skipped)),
       category = FETCH_ERROR \<rparr>"

definition partialScanFinding :: "RepositoryInfo \<Rightarrow> jsstring list \<Rightarrow> Finding" where
  "partialScanFinding repository' skipped =
     \<lparr> riskLevel = YELLOW, filePath = url repository',
       description = numberToString (length skipped)
         @ js '' file(s) could not be fetched - partial scan only'',
       lineNumber = None,
       matchedContent = Some (join (js '', '') (take 3 skipped)),
       category = FETCH_ERROR \<rparr>"

definition scanRepository ::
  "Scanners \<Rightarrow> FileContent list \<Rightarrow> RepositoryInfo \<Rightarrow> PartialHeuristicsConfig \<Rightarrow> nat \<Rightarrow> ScanResult" where
  "scanRepository sc files repository' config now =
     (case scanRepositoryLoop sc config files ([], [], []) of
        (scanned, skipped, allFindings) \<Rightarrow>
          (let findings0 = aggregateFindings allFindings;
               findings1 =
                 (if length scanned = 0 \<and> length skipped > 0
                  then findings0 @ [unableToFetchFinding repository' skipped]
                  else if length skipped > 0 \<and> length scanned > 0
                  then findings0 @ [partialScanFinding repository' skipped]
                  else findings0)
           in createScanResult findings1 scanned skipped repository' now))"

text \<open>
  The loop of \<open>deduplicateFindings\<close> without its accumulator \<open>unique\<close>: what it
  appends, given the keys seen so far. Used in the proofs only.
\<close>

fun dedupFrom :: "jsstring set \<Rightarrow> Finding list \<Rightarrow> Finding list" where
  "dedupFrom seen [] = []"
| "dedupFrom seen (f # fs) =
     (if findingKey f \<notin> seen then f # dedupFrom (insert (findingKey f) seen) fs
      else dedupFrom seen fs)"

text \<open>
  The maximum severity of the specification, under the order RED > YELLOW > GREEN, and
  GREEN for no findings.
\<close>

fun maxRisk :: "RiskLevel \<Rightarrow> RiskLevel \<Rightarrow> RiskLevel" where
  "maxRisk RED b = RED"
| "maxRisk a RED = RED"
| "maxRisk YELLOW b = YELLOW"
| "maxRisk a YELLOW = YELLOW"
| "maxRisk GREEN GREEN = GREEN"

definition maxSeverity :: "Finding list \<Rightarrow> RiskLevel" where
  "maxSeverity fs = foldr (\<lambda>f. maxRisk (riskLevel f)) fs GREEN"

text \<open>The test of the loop of \<open>scanRepository\<close>: \<open>file.exists && file.content\<close>.\<close>

definition readable :: "FileContent \<Rightarrow> bool" where
  "readable file = (exists file \<and> content file \<noteq> [])"

text \<open>The count that the Map \<open>frequencies\<close> holds for a key, 0 when the key is absent.\<close>

definition freqOf :: "(jsstring \<times> nat) list \<Rightarrow> jsstring \<Rightarrow> nat" where
  "freqOf m k = (case map_of m k of Some n \<Rightarrow> n | None \<Rightarrow> 0)"

text \<open>The state of the locals of \<open>scan\<close> after the first \<open>n\<close> lines.\<close>

definition stateAfter :: "jsstring list \<Rightarrow> jsstring \<Rightarrow> nat \<Rightarrow> WorkflowState" where
  "stateAfter lines p n = foldl (scanLine lines p) initialWorkflowState [0..<n]"

text \<open>
  A matcher succeeds only through its continuation, at a state that is not longer than
  the one it started from. Used in the proofs only.
\<close>

definition viaCont :: "((mstate \<Rightarrow> 'a option) \<Rightarrow> mstate \<Rightarrow> 'a option) \<Rightarrow> bool" where
  "viaCont m =
     (\<forall>k st x. m k st = Some x \<longrightarrow> (\<exists>st'. length (snd st') \<le> length (snd st) \<and> k st' = Some x))"

text \<open>
  The offsets at which the sliding-window loop of \<open>scanForHighEntropy\<close> looks at the
  content, for a positive step: the multiples of the step below
  \<open>content.length - windowSize\<close>.
\<close>

definition windowOffsets :: "nat \<Rightarrow> nat \<Rightarrow> nat \<Rightarrow> nat list" where
  "windowOffsets len windowSize stepSize =
     filter (\<lambda>i. i mod stepSize = 0) [0..<len - windowSize]"

text \<open>
  The state of the sliding-window loop with every finding reduced to its severity.
\<close>

definition levels :: "nat set \<times> Finding list \<Rightarrow> nat set \<times> RiskLevel list" where
  "levels st = (fst st, map riskLevel (snd st))"

section \<open>Example inputs\<close>

definition exFinding :: "RiskLevel \<Rightarrow> jsstring \<Rightarrow> jsstring \<Rightarrow> Finding" where
  "exFinding r p d =
     \<lparr> riskLevel = r, filePath = p, description = d, lineNumber = None,
       matchedContent = None, category = NPM \<rparr>"

text \<open>Scanners that find nothing, a repository, and a configuration without keys.\<close>

definition exScanners :: Scanners where
  "exScanners =
     \<lparr> scanVSCodeTasks = (\<lambda>c p. []), scanNPMPackage = (\<lambda>c p. []),
       scanPython = (\<lambda>c p. []), scanRust = (\<lambda>c p. []) \<rparr>"

definition exRepository :: RepositoryInfo where
  "exRepository =
     \<lparr> owner = js ''o'', repo = js ''r'', branch = None, url = js ''https://github.com/o/r'' \<rparr>"

definition exConfig :: PartialHeuristicsConfig where
  "exConfig =
     \<lparr> entropyScanOption = None, homoglyphScanOption = None, secondaryScriptScanOption = None \<rparr>"

text \<open>A file that was not found, and a file that exists and is empty.\<close>

definition exMissing :: FileContent where
  "exMissing = \<lparr> path = js ''package.json'', content = [], exists = False \<rparr>"

definition exEmpty :: FileContent where
  "exEmpty = \<lparr> path = js ''setup.py'', content = [], exists = True \<rparr>"

text \<open>Six dynamic \<open>require\<close> calls in one file.\<close>

definition exSixRequires :: jsstring where
  "exSixRequires = js ''require(a)require(b)require(c)require(d)require(e)require(f)''"





text \<open>
  A content of 1300 code units with six regions of 200: three start with 100
  different characters, three with 50 different characters written twice; the rest is
  the letter x.
\<close>

definition exSixRegions :: jsstring where
  "exSixRegions =
     [1000..<1100] @ replicate 100 120 @ [1000..<1100] @ replicate 100 120
     @ [1000..<1100] @ replicate 100 120
     @ ([1000..<1050] @ [1000..<1050]) @ replicate 100 120
     @ ([1000..<1050] @ [1000..<1050]) @ replicate 100 120
     @ ([1000..<1050] @ [1000..<1050]) @ replicate 200 120"

section \<open>Properties of the regular expressions\<close>

lemma viaContI: "(\<And>k st x. m k st = Some x \<Longrightarrow> \<exists>st'. length (snd st') \<le> length (snd st) \<and> k st' = Some x) \<Longrightarrow> viaCont m"
  unfolding viaCont_def by blast

lemma viaContD: "viaCont m \<Longrightarrow> m k st = Some x \<Longrightarrow> \<exists>st'. length (snd st') \<le> length (snd st) \<and> k st' = Some x"
  unfolding viaCont_def by blast

lemma step_viaCont: "viaCont (step P)"
proof (rule viaContI)
  fix k :: "mstate \<Rightarrow> 'a option" and st x
  assume a: "step P k st = Some x"
  obtain prev s where st: "st = (prev, s)" by (cases st)
  show "\<exists>st'. length (snd st') \<le> length (snd st) \<and> k st' = Some x"
  proof (cases s)
    case Nil
    then show ?thesis using a st by simp
  next
    case (Cons c cs)
    then have "k (Some c, cs) = Some x" using a st by (simp split: if_splits)
    then show ?thesis using st Cons by (intro exI [of _ "(Some c, cs)"]) simp
  qed
qed

lemma matchLit_via: "matchLit ic s k st = Some x \<Longrightarrow> \<exists>st'. length (snd st') \<le> length (snd st) \<and> k st' = Some x"
proof (induction ic s k st rule: matchLit.induct)
  case (1 ic k st)
  then show ?case by (intro exI [of _ st]) simp
next
  case (2 ic p ps k prev)
  then show ?case by simp
next
  case (3 ic p ps k prev c cs)
  then have "matchLit ic ps k (Some c, cs) = Some x" by (simp split: if_splits)
  then obtain st' where "length (snd st') \<le> length cs" "k st' = Some x"
    using 3 by (auto split: if_splits)
  then show ?case by (intro exI [of _ st']) simp
qed

lemma matchLit_viaCont: "viaCont (matchLit ic s)"
  by (rule viaContI) (rule matchLit_via)

lemma starLoop_via:
  assumes "viaCont m"
  shows "starLoop m n k st = Some x \<Longrightarrow> \<exists>st'. length (snd st') \<le> length (snd st) \<and> k st' = Some x"
proof (induction n arbitrary: st)
  case 0
  then show ?case by (intro exI [of _ st]) simp
next
  case (Suc n)
  let ?k' = "\<lambda>st'. if length (snd st') < length (snd st) then starLoop m n k st' else None"
  show ?case
  proof (cases "m ?k' st")
    case None
    then have "k st = Some x" using Suc.prems by simp
    then show ?thesis by (intro exI [of _ st]) simp
  next
    case (Some y)
    then have "y = x" using Suc.prems by simp
    then obtain st1 where s1: "length (snd st1) \<le> length (snd st)" "?k' st1 = Some x"
      using viaContD [OF assms Some] by auto
    then have "starLoop m n k st1 = Some x" by (simp split: if_splits)
    then obtain st' where "length (snd st') \<le> length (snd st1)" "k st' = Some x"
      using Suc.IH by blast
    then show ?thesis using s1(1) by (intro exI [of _ st']) simp
  qed
qed

lemma repeatLoop_via:
  assumes "viaCont m"
  shows "repeatLoop m n k st = Some x \<Longrightarrow> \<exists>st'. length (snd st') \<le> length (snd st) \<and> k st' = Some x"
proof (induction n arbitrary: st x k)
  case 0
  then show ?case by (intro exI [of _ st]) simp
next
  case (Suc n)
  then have "m (repeatLoop m n k) st = Some x" by simp
  then obtain st1 where s1: "length (snd st1) \<le> length (snd st)" "repeatLoop m n k st1 = Some x"
    using viaContD [OF assms] by blast
  then obtain st' where "length (snd st') \<le> length (snd st1)" "k st' = Some x"
    using Suc.IH by blast
  then show ?case using s1(1) by (intro exI [of _ st']) simp
qed

lemma rmatch_viaCont: "viaCont (rmatch ic r :: (mstate \<Rightarrow> 'a option) \<Rightarrow> mstate \<Rightarrow> 'a option)"
proof (induction r)
  case (Lit s)
  then show ?case by (simp add: matchLit_viaCont)
next
  case AnyChar
  then show ?case by (simp add: step_viaCont)
next
  case (Class items)
  then show ?case by (simp add: step_viaCont)
next
  case (NotClass items)
  then show ?case by (simp add: step_viaCont)
next
  case (Seq a b)
  show ?case
  proof (rule viaContI)
    fix k :: "mstate \<Rightarrow> 'a option" and st x
    assume "rmatch ic (Seq a b) k st = Some x"
    then have "rmatch ic a (rmatch ic b k) st = Some x" by simp
    then obtain st1 where s1: "length (snd st1) \<le> length (snd st)" "rmatch ic b k st1 = Some x"
      using viaContD [OF Seq.IH(1)] by blast
    then obtain st' where "length (snd st') \<le> length (snd st1)" "k st' = Some x"
      using viaContD [OF Seq.IH(2)] by blast
    then show "\<exists>st'. length (snd st') \<le> length (snd st) \<and> k st' = Some x"
      using s1(1) by (intro exI [of _ st']) simp
  qed
next
  case (Alt a b)
  show ?case
  proof (rule viaContI)
    fix k :: "mstate \<Rightarrow> 'a option" and st x
    assume "rmatch ic (Alt a b) k st = Some x"
    then have "rmatch ic a k st = Some x \<or> rmatch ic b k st = Some x"
      by (simp split: option.splits)
    then show "\<exists>st'. length (snd st') \<le> length (snd st) \<and> k st' = Some x"
      using viaContD [OF Alt.IH(1)] viaContD [OF Alt.IH(2)] by blast
  qed
next
  case (Star r)
  show ?case
  proof (rule viaContI)
    fix k :: "mstate \<Rightarrow> 'a option" and st x
    assume "rmatch ic (Star r) k st = Some x"
    then have "starLoop (rmatch ic r) (length (snd st)) k st = Some x" by simp
    then show "\<exists>st'. length (snd st') \<le> length (snd st) \<and> k st' = Some x"
      by (rule starLoop_via [OF Star.IH])
  qed
next
  case (Plus r)
  show ?case
  proof (rule viaContI)
    fix k :: "mstate \<Rightarrow> 'a option" and st x
    assume "rmatch ic (Plus r) k st = Some x"
    then have "rmatch ic r (\<lambda>st'. starLoop (rmatch ic r) (length (snd st')) k st') st = Some x" by simp
    then obtain st1 where s1: "length (snd st1) \<le> length (snd st)"
        "starLoop (rmatch ic r) (length (snd st1)) k st1 = Some x"
      using viaContD [OF Plus.IH] by blast
    then obtain st' where "length (snd st') \<le> length (snd st1)" "k st' = Some x"
      using starLoop_via [OF Plus.IH] by blast
    then show "\<exists>st'. length (snd st') \<le> length (snd st) \<and> k st' = Some x"
      using s1(1) by (intro exI [of _ st']) simp
  qed
next
  case (Opt r)
  show ?case
  proof (rule viaContI)
    fix k :: "mstate \<Rightarrow> 'a option" and st x
    assume "rmatch ic (Opt r) k st = Some x"
    then have "rmatch ic r k st = Some x \<or> k st = Some x"
      by (simp split: option.splits)
    then show "\<exists>st'. length (snd st') \<le> length (snd st) \<and> k st' = Some x"
    proof
      assume "rmatch ic r k st = Some x"
      then show ?thesis by (rule viaContD [OF Opt.IH])
    next
      assume "k st = Some x"
      then show ?thesis by (intro exI [of _ st]) simp
    qed
  qed
next
  case (Repeat n r)
  show ?case
  proof (rule viaContI)
    fix k :: "mstate \<Rightarrow> 'a option" and st x
    assume "rmatch ic (Repeat n r) k st = Some x"
    then have "repeatLoop (rmatch ic r) n k st = Some x" by simp
    then show "\<exists>st'. length (snd st') \<le> length (snd st) \<and> k st' = Some x"
      by (rule repeatLoop_via [OF Repeat.IH])
  qed
next
  case Bol
  show ?case
  proof (rule viaContI)
    fix k :: "mstate \<Rightarrow> 'a option" and st x
    assume "rmatch ic Bol k st = Some x"
    then have "k st = Some x" by (simp split: if_splits)
    then show "\<exists>st'. length (snd st') \<le> length (snd st) \<and> k st' = Some x"
      by (intro exI [of _ st]) simp
  qed
next
  case Eol
  show ?case
  proof (rule viaContI)
    fix k :: "mstate \<Rightarrow> 'a option" and st x
    assume "rmatch ic Eol k st = Some x"
    then have "k st = Some x" by (simp split: if_splits)
    then show "\<exists>st'. length (snd st') \<le> length (snd st) \<and> k st' = Some x"
      by (intro exI [of _ st]) simp
  qed
next
  case WordBoundary
  show ?case
  proof (rule viaContI)
    fix k :: "mstate \<Rightarrow> 'a option" and st x
    assume "rmatch ic WordBoundary k st = Some x"
    then have "k st = Some x" by (simp split: if_splits)
    then show "\<exists>st'. length (snd st') \<le> length (snd st) \<and> k st' = Some x"
      by (intro exI [of _ st]) simp
  qed
qed

text \<open>A match ends inside the rest of the input, after the place where it starts.\<close>

lemma execFrom_lengths:
  "execFrom ic r st = Some (b, e) \<Longrightarrow> length (snd e) \<le> length (snd b) \<and> length (snd b) \<le> length (snd st)"
proof (induction ic r st rule: execFrom.induct)
  case (1 ic r prev)
  then obtain st' where "length (snd st') \<le> 0" "Some ((prev, []), st') = Some (b, e)"
    using viaContD [OF rmatch_viaCont, of ic r "\<lambda>e. Some ((prev, []), e)" "(prev, [])" "(b, e)"] by auto
  then show ?case by auto
next
  case (2 ic r prev c cs)
  show ?case
  proof (cases "rmatch ic r (\<lambda>e. Some ((prev, c # cs), e)) (prev, c # cs)")
    case None
    then have "execFrom ic r (Some c, cs) = Some (b, e)" using 2(2) by simp
    then show ?thesis using 2(1) [OF None] by simp
  next
    case (Some y)
    then have y: "y = (b, e)" using 2(2) by simp
    obtain st' where "length (snd st') \<le> length (c # cs)" "Some ((prev, c # cs), st') = Some y"
      using viaContD [OF rmatch_viaCont Some] by auto
    then show ?thesis using y by auto
  qed
qed

text \<open>So the test in \<open>matchAllFrom\<close> always holds.\<close>

lemma nextSearch_shorter:
  assumes "execFrom ic r st = Some (b, e)" "nextSearch b e = Some st'"
  shows "length (snd st') < length (snd st)"
proof -
  have l: "length (snd e) \<le> length (snd b)" "length (snd b) \<le> length (snd st)"
    using execFrom_lengths [OF assms(1)] by auto
  show ?thesis
  proof (cases "length (snd e) < length (snd b)")
    case True
    then show ?thesis using assms(2) l by (simp add: nextSearch_def)
  next
    case False
    then obtain c cs where "snd e = c # cs" "st' = (Some c, cs)"
      using assms(2) by (auto simp: nextSearch_def split: list.splits)
    then show ?thesis using l by simp
  qed
qed

text \<open>
  The bound on the iterations of a star is enough: a larger one gives the same result.
\<close>

lemma starLoop_fuel:
  assumes "viaCont m"
  shows "length (snd st) \<le> n \<Longrightarrow> starLoop m n k st = starLoop m (length (snd st)) k st"
proof (induction n arbitrary: st rule: less_induct)
  case (less n)
  have fail: "m (\<lambda>st'. None) st = None" for st
  proof (cases "m (\<lambda>st'. None) st")
    case None then show ?thesis .
  next
    case (Some x)
    then show ?thesis using viaContD [OF assms Some] by simp
  qed
  have zero: "starLoop m j k st = k st" if "length (snd st) = 0" for j
  proof (cases j)
    case 0 then show ?thesis by simp
  next
    case (Suc i)
    have "(\<lambda>st'. if length (snd st') < length (snd st) then starLoop m i k st' else None) = (\<lambda>st'. None)"
      using that by auto
    then show ?thesis using fail Suc by simp
  qed
  show ?case
  proof (cases "length (snd st)")
    case 0
    then show ?thesis using zero by simp
  next
    case (Suc l)
    then obtain n' where n': "n = Suc n'" "l \<le> n'" using less.prems by (cases n) auto
    have "(\<lambda>st'. if length (snd st') < length (snd st) then starLoop m n' k st' else None)
        = (\<lambda>st'. if length (snd st') < length (snd st) then starLoop m l k st' else None)"
    proof (rule ext)
      fix st' :: mstate
      show "(if length (snd st') < length (snd st) then starLoop m n' k st' else None)
          = (if length (snd st') < length (snd st) then starLoop m l k st' else None)"
      proof (cases "length (snd st') < length (snd st)")
        case True
        then have a: "length (snd st') \<le> l" using Suc by simp
        then have "length (snd st') \<le> n'" using n' by simp
        then have "starLoop m n' k st' = starLoop m (length (snd st')) k st'"
          using less.IH [of n' st'] n' by simp
        moreover have "starLoop m l k st' = starLoop m (length (snd st')) k st'"
          using less.IH [of l st'] a n' by simp
        ultimately show ?thesis using True by simp
      next
        case False then show ?thesis by simp
      qed
    qed
    then show ?thesis using Suc n' by simp
  qed
qed

lemma matchAllFrom_unfold:
  "matchAllFrom ic r st =
     (case execFrom ic r st of
        None \<Rightarrow> []
      | Some (b, e) \<Rightarrow>
          matched b e #
          (case nextSearch b e of None \<Rightarrow> [] | Some st' \<Rightarrow> matchAllFrom ic r st'))"
proof (cases "execFrom ic r st")
  case None
  then show ?thesis by (simp add: matchAllFrom.simps)
next
  case (Some m)
  obtain b e where m: "m = (b, e)" by (cases m)
  show ?thesis
  proof (cases "nextSearch b e")
    case None
    then show ?thesis using Some m by (simp add: matchAllFrom.simps)
  next
    case (Some st')
    have "length (snd st') < length (snd st)"
      using \<open>execFrom ic r st = Some m\<close> Some unfolding m by (rule nextSearch_shorter)
    then show ?thesis
      using \<open>execFrom ic r st = Some m\<close> Some m by (subst matchAllFrom.simps) simp
  qed
qed


section \<open>Properties of the risk classifier\<close>

lemma riskLevel_GREEN_if: "riskLevel f \<noteq> RED \<Longrightarrow> riskLevel f \<noteq> YELLOW \<Longrightarrow> riskLevel f = GREEN"
  by (cases "riskLevel f") auto

lemma determineOverallRisk_GREEN_iff:
  "determineOverallRisk fs = GREEN \<longleftrightarrow> (\<forall>f\<in>set fs. riskLevel f = GREEN)"
proof
  assume "determineOverallRisk fs = GREEN"
  then have "\<not> list_ex (\<lambda>f. riskLevel f = RED) fs" "\<not> list_ex (\<lambda>f. riskLevel f = YELLOW) fs"
    by (auto simp: determineOverallRisk_def list_ex_iff split: if_splits)
  then show "\<forall>f\<in>set fs. riskLevel f = GREEN"
    by (auto simp: list_ex_iff intro: riskLevel_GREEN_if)
next
  assume "\<forall>f\<in>set fs. riskLevel f = GREEN"
  then show "determineOverallRisk fs = GREEN"
    by (auto simp: determineOverallRisk_def list_ex_iff)
qed

lemma determineOverallRisk_RED_iff:
  "determineOverallRisk fs = RED \<longleftrightarrow> (\<exists>f\<in>set fs. riskLevel f = RED)"
  by (auto simp: determineOverallRisk_def list_ex_iff)

lemma determineOverallRisk_YELLOW_iff:
  "determineOverallRisk fs = YELLOW \<longleftrightarrow>
     (\<forall>f\<in>set fs. riskLevel f \<noteq> RED) \<and> (\<exists>f\<in>set fs. riskLevel f = YELLOW)"
  by (auto simp: determineOverallRisk_def list_ex_iff)

text \<open>
  C2, as the code has it. The classifier returns RED exactly when some finding is RED,
  YELLOW exactly when no finding is RED and some finding is YELLOW, and GREEN exactly
  when every finding of the list carries the severity GREEN; the empty list is one such
  list, but not the only one.
\<close>

theorem determineOverallRisk_classifies:
  "(determineOverallRisk fs = RED \<longleftrightarrow> (\<exists>f\<in>set fs. riskLevel f = RED)) \<and>
   (determineOverallRisk fs = YELLOW \<longleftrightarrow>
      (\<forall>f\<in>set fs. riskLevel f \<noteq> RED) \<and> (\<exists>f\<in>set fs. riskLevel f = YELLOW)) \<and>
   (determineOverallRisk fs = GREEN \<longleftrightarrow> (\<forall>f\<in>set fs. riskLevel f = GREEN)) \<and>
   determineOverallRisk [] = GREEN"
  using determineOverallRisk_RED_iff determineOverallRisk_YELLOW_iff
    determineOverallRisk_GREEN_iff [of fs] determineOverallRisk_GREEN_iff [of "[]"]
  by simp

theorem determineOverallRisk_classifies_witness:
  "determineOverallRisk [exFinding GREEN (js ''a'') (js ''d''), exFinding YELLOW (js ''a'') (js ''d'')]
     = YELLOW"
  using determineOverallRisk_classifies
    [of "[exFinding GREEN (js ''a'') (js ''d''), exFinding YELLOW (js ''a'') (js ''d'')]"]
  by (simp add: exFinding_def)

text \<open>
  C2 as stated fails: a list holding one finding of severity GREEN is not empty, and
  the classifier returns GREEN on it.
\<close>

theorem determineOverallRisk_GREEN_nonempty:
  "\<not> (determineOverallRisk [exFinding GREEN (js ''a'') (js ''d'')] = GREEN
        \<longleftrightarrow> [exFinding GREEN (js ''a'') (js ''d'')] = [])"
  by (simp add: determineOverallRisk_def exFinding_def)

section \<open>Properties of deduplication\<close>

lemma deduplicateLoop_dedupFrom: "deduplicateLoop seen unique fs = unique @ dedupFrom seen fs"
  by (induction fs arbitrary: seen unique) auto

lemma dedupFrom_key_unseen: "f \<in> set (dedupFrom seen fs) \<Longrightarrow> findingKey f \<notin> seen"
  by (induction fs arbitrary: seen) (auto split: if_splits)

lemma dedupFrom_distinct: "distinct (map findingKey (dedupFrom seen fs))"
  by (induction fs arbitrary: seen) (auto dest: dedupFrom_key_unseen)

lemma dedupFrom_fixpoint:
  "distinct (map findingKey fs) \<Longrightarrow> findingKey ` set fs \<inter> seen = {} \<Longrightarrow> dedupFrom seen fs = fs"
  by (induction fs arbitrary: seen) auto

lemma dedupFrom_keys: "findingKey ` set (dedupFrom seen fs) = findingKey ` set fs - seen"
  by (induction fs arbitrary: seen) auto

lemma split_at_separator:
  assumes "c \<notin> set a" "c \<notin> set a'" "a @ c # b = a' @ c # b'"
  shows "a = a' \<and> b = b'"
  using assms
proof (induction a arbitrary: a')
  case Nil
  then show ?case by (cases a') auto
next
  case (Cons x a)
  then show ?case by (cases a') auto
qed

lemma riskLevelString_no_colon: "58 \<notin> set (riskLevelString r)"
  by (cases r) (simp_all add: js_def)

lemma riskLevelString_inj: "riskLevelString r = riskLevelString r' \<Longrightarrow> r = r'"
  by (cases r; cases r') (simp_all add: js_def)

lemma findingKey_inj_no_colon:
  assumes "58 \<notin> set (filePath f)" "58 \<notin> set (filePath g)" "findingKey f = findingKey g"
  shows "riskLevel f = riskLevel g \<and> filePath f = filePath g \<and> description f = description g"
proof -
  from assms(3) have e:
    "riskLevelString (riskLevel f) @ 58 # (filePath f @ 58 # description f)
       = riskLevelString (riskLevel g) @ 58 # (filePath g @ 58 # description g)"
    by (simp add: findingKey_def js_def)
  from split_at_separator [OF riskLevelString_no_colon riskLevelString_no_colon e]
  have r: "riskLevelString (riskLevel f) = riskLevelString (riskLevel g)"
    and e2: "filePath f @ 58 # description f = filePath g @ 58 # description g"
    by auto
  from split_at_separator [OF assms(1) assms(2) e2] riskLevelString_inj [OF r]
  show ?thesis by simp
qed

text \<open>
  C9, as the code has it. Deduplication is idempotent, and it keeps the first finding
  of every key: the keys of its result are pairwise different and are the keys of the
  input. Two findings are duplicates exactly when their keys, the strings
  \<open>riskLevel:filePath:description\<close>, are equal. Findings that agree on severity, file
  path and description have equal keys; findings with equal keys agree on the three
  when neither file path contains a colon (code unit 58).
\<close>

theorem deduplicateFindings_idempotent:
  "deduplicateFindings (deduplicateFindings X) = deduplicateFindings X \<and>
   distinct (map findingKey (deduplicateFindings X)) \<and>
   findingKey ` set (deduplicateFindings X) = findingKey ` set X \<and>
   deduplicateFindings [f, g] = (if findingKey f = findingKey g then [f] else [f, g]) \<and>
   (riskLevel f = riskLevel g \<and> filePath f = filePath g \<and> description f = description g
      \<longrightarrow> findingKey f = findingKey g) \<and>
   (58 \<notin> set (filePath f) \<and> 58 \<notin> set (filePath g) \<and> findingKey f = findingKey g
      \<longrightarrow> riskLevel f = riskLevel g \<and> filePath f = filePath g \<and> description f = description g)"
proof (intro conjI)
  show "deduplicateFindings (deduplicateFindings X) = deduplicateFindings X"
    unfolding deduplicateFindings_def deduplicateLoop_dedupFrom
    by (simp add: dedupFrom_fixpoint dedupFrom_distinct)
  show "distinct (map findingKey (deduplicateFindings X))"
    unfolding deduplicateFindings_def deduplicateLoop_dedupFrom
    by (simp add: dedupFrom_distinct)
  show "findingKey ` set (deduplicateFindings X) = findingKey ` set X"
    unfolding deduplicateFindings_def deduplicateLoop_dedupFrom
    by (simp add: dedupFrom_keys)
  show "deduplicateFindings [f, g] = (if findingKey f = findingKey g then [f] else [f, g])"
    by (auto simp: deduplicateFindings_def)
  show "riskLevel f = riskLevel g \<and> filePath f = filePath g \<and> description f = description g
      \<longrightarrow> findingKey f = findingKey g"
    by (simp add: findingKey_def)
  show "58 \<notin> set (filePath f) \<and> 58 \<notin> set (filePath g) \<and> findingKey f = findingKey g
      \<longrightarrow> riskLevel f = riskLevel g \<and> filePath f = filePath g \<and> description f = description g"
    using findingKey_inj_no_colon by blast
qed

theorem deduplicateFindings_idempotent_witness:
  "deduplicateFindings
     [exFinding RED (js ''a'') (js ''c''), exFinding RED (js ''a'') (js ''c'')]
   = [exFinding RED (js ''a'') (js ''c'')]"
  using deduplicateFindings_idempotent
    [of "[]" "exFinding RED (js ''a'') (js ''c'')" "exFinding RED (js ''a'') (js ''c'')"]
  by simp

text \<open>
  C9 as stated fails on the key: the finding (RED, \<open>a:b\<close>, \<open>c\<close>) and the finding
  (RED, \<open>a\<close>, \<open>b:c\<close>) differ in file path and description, have the same key
  \<open>RED:a:b:c\<close>, and the second is removed as a duplicate of the first.
\<close>

theorem deduplicateFindings_key_collision:
  "deduplicateFindings
     [exFinding RED (js ''a:b'') (js ''c''), exFinding RED (js ''a'') (js ''b:c'')]
   = [exFinding RED (js ''a:b'') (js ''c'')] \<and>
   filePath (exFinding RED (js ''a:b'') (js ''c'')) \<noteq> filePath (exFinding RED (js ''a'') (js ''b:c''))"
  by (simp add: deduplicateFindings_def findingKey_def exFinding_def js_def)

section \<open>Properties of the engine\<close>

lemma scanRepositoryLoop_eq:
  "scanRepositoryLoop sc config files (a, b, c) =
    (a @ map path (filter readable files),
     b @ map path (filter (\<lambda>f. \<not> readable f) files),
     c @ map (\<lambda>f. scanFile sc f config) (filter readable files))"
  by (induction files arbitrary: a b c) (auto simp: readable_def)

lemma scannedFiles_scanRepository:
  "scannedFiles (scanRepository sc files ri config now) = map path (filter readable files)"
  by (simp add: scanRepository_def scanRepositoryLoop_eq createScanResult_def Let_def)

lemma skippedFiles_scanRepository:
  "skippedFiles (scanRepository sc files ri config now)
     = map path (filter (\<lambda>f. \<not> readable f) files)"
  by (simp add: scanRepository_def scanRepositoryLoop_eq createScanResult_def Let_def)

lemma maxSeverity_by_set:
  "maxSeverity fs =
     (if \<exists>f\<in>set fs. riskLevel f = RED then RED
      else if \<exists>f\<in>set fs. riskLevel f = YELLOW then YELLOW else GREEN)"
proof (induction fs)
  case Nil
  then show ?case by (simp add: maxSeverity_def)
next
  case (Cons f fs)
  have "maxSeverity (f # fs) = maxRisk (riskLevel f) (maxSeverity fs)"
    by (simp add: maxSeverity_def)
  with Cons show ?case by (cases "riskLevel f") auto
qed

lemma determineOverallRisk_maxSeverity: "determineOverallRisk fs = maxSeverity fs"
  unfolding maxSeverity_by_set by (auto simp: determineOverallRisk_def list_ex_iff)

lemma maxSeverity_sorted: "maxSeverity (sortFindingsBySeverity fs) = maxSeverity fs"
  by (simp add: maxSeverity_by_set sortFindingsBySeverity_def)

lemma createScanResult_overallRisk:
  "overallRisk (createScanResult fs scanned skipped ri now)
     = maxSeverity (findings (createScanResult fs scanned skipped ri now))"
  by (simp add: createScanResult_def determineOverallRisk_maxSeverity maxSeverity_sorted)

text \<open>
  C3. In every result of \<open>createScanResult\<close>, and so in every result of
  \<open>scanRepository\<close>, the field \<open>overallRisk\<close> is the maximum severity (RED over YELLOW
  over GREEN) of the findings stored in the result, and GREEN when there are none.
\<close>

theorem overallRisk_is_max_severity:
  "overallRisk (createScanResult fs scanned skipped ri now)
     = maxSeverity (findings (createScanResult fs scanned skipped ri now)) \<and>
   overallRisk (scanRepository sc files ri config now)
     = maxSeverity (findings (scanRepository sc files ri config now)) \<and>
   maxSeverity [] = GREEN"
  by (simp add: createScanResult_overallRisk scanRepository_def Let_def maxSeverity_def
      split: prod.splits)

theorem overallRisk_is_max_severity_witness:
  "overallRisk (createScanResult
      [exFinding YELLOW (js ''a'') (js ''d''), exFinding RED (js ''b'') (js ''e'')] [] [] exRepository 0)
     = RED \<and>
   findings (createScanResult
      [exFinding YELLOW (js ''a'') (js ''d''), exFinding RED (js ''b'') (js ''e'')] [] [] exRepository 0)
     = [exFinding RED (js ''b'') (js ''e''), exFinding YELLOW (js ''a'') (js ''d'')]"
  using overallRisk_is_max_severity
    [of "[exFinding YELLOW (js ''a'') (js ''d''), exFinding RED (js ''b'') (js ''e'')]"
        "[]" "[]" exRepository 0 exScanners "[]" exConfig]
  by (simp add: createScanResult_def sortFindingsBySeverity_def exFinding_def maxSeverity_def)

text \<open>
  C1. When the batch of files is not empty and no file of it was read (none exists with
  a non-empty content), the result of \<open>scanRepository\<close> has the overall risk YELLOW,
  never GREEN; all paths are in \<open>skippedFiles\<close>, none in \<open>scannedFiles\<close>; and its
  only finding is the fetch-error finding, whose matched content gives the number of
  missing files and the first three of their paths.
\<close>

theorem scanRepository_nothing_read:
  assumes "files \<noteq> []" and "\<forall>f\<in>set files. \<not> (exists f \<and> content f \<noteq> [])"
  shows "overallRisk (scanRepository sc files ri config now) = YELLOW \<and>
         overallRisk (scanRepository sc files ri config now) \<noteq> GREEN \<and>
         scannedFiles (scanRepository sc files ri config now) = [] \<and>
         skippedFiles (scanRepository sc files ri config now) = map path files \<and>
         findings (scanRepository sc files ri config now)
           = [unableToFetchFinding ri (map path files)] \<and>
         riskLevel (unableToFetchFinding ri (map path files)) = YELLOW \<and>
         category (unableToFetchFinding ri (map path files)) = FETCH_ERROR \<and>
         matchedContent (unableToFetchFinding ri (map path files))
           = Some (numberToString (length files) @ js '' file(s): ''
                     @ join (js '', '') (take 3 (map path files)))"
proof -
  from assms(2) have f1: "filter readable files = []"
    and f2: "filter (\<lambda>f. \<not> readable f) files = files"
    by (auto simp: readable_def filter_empty_conv filter_id_conv)
  have l: "scanRepositoryLoop sc config files ([], [], []) = ([], map path files, [])"
    by (simp add: scanRepositoryLoop_eq f1 f2)
  show ?thesis
    using assms(1)
    by (simp add: scanRepository_def l aggregateFindings_def deduplicateFindings_def
        createScanResult_def determineOverallRisk_def sortFindingsBySeverity_def
        unableToFetchFinding_def)
qed

theorem scanRepository_nothing_read_witness:
  "overallRisk (scanRepository exScanners [exMissing, exEmpty] exRepository exConfig 0) = YELLOW \<and>
   skippedFiles (scanRepository exScanners [exMissing, exEmpty] exRepository exConfig 0)
     = [js ''package.json'', js ''setup.py''] \<and>
   map matchedContent (findings (scanRepository exScanners [exMissing, exEmpty] exRepository exConfig 0))
     = [Some (js ''2 file(s): package.json, setup.py'')]"
  using scanRepository_nothing_read [of "[exMissing, exEmpty]" exScanners exRepository exConfig 0]
  by (simp add: exMissing_def exEmpty_def unableToFetchFinding_def numberToString.simps js_def)

text \<open>
  C10. A file whose content is the empty string, whatever its flag \<open>exists\<close>, gives no
  findings in \<open>scanFile\<close>; \<open>scanRepository\<close> treats it exactly as the same file with
  \<open>exists\<close> false: its path goes to \<open>skippedFiles\<close>, and the files counted as scanned
  are those of the batch without it.
\<close>

theorem empty_file_is_skipped:
  assumes "content file = []"
  shows "scanFile sc file config = [] \<and>
         scanRepository sc (before @ file # after) ri config now
           = scanRepository sc (before @ file\<lparr>exists := False\<rparr> # after) ri config now \<and>
         path file \<in> set (skippedFiles (scanRepository sc (before @ file # after) ri config now)) \<and>
         scannedFiles (scanRepository sc (before @ file # after) ri config now)
           = scannedFiles (scanRepository sc (before @ after) ri config now)"
proof -
  have r: "\<not> readable file" "\<not> readable (file\<lparr>exists := False\<rparr>)"
    using assms by (simp_all add: readable_def)
  have "scanFile sc file config = []"
    using assms by (simp add: scanFile_def)
  moreover have "scanRepositoryLoop sc config (before @ file # after) ([], [], [])
      = scanRepositoryLoop sc config (before @ file\<lparr>exists := False\<rparr> # after) ([], [], [])"
    using r by (simp add: scanRepositoryLoop_eq)
  then have "scanRepository sc (before @ file # after) ri config now
      = scanRepository sc (before @ file\<lparr>exists := False\<rparr> # after) ri config now"
    by (simp add: scanRepository_def)
  moreover have "path file \<in> set (skippedFiles (scanRepository sc (before @ file # after) ri config now))"
    using r by (simp add: skippedFiles_scanRepository)
  moreover have "scannedFiles (scanRepository sc (before @ file # after) ri config now)
      = scannedFiles (scanRepository sc (before @ after) ri config now)"
    using r by (simp add: scannedFiles_scanRepository)
  ultimately show ?thesis by simp
qed

theorem empty_file_is_skipped_witness:
  "scanFile exScanners exEmpty exConfig = [] \<and>
   skippedFiles (scanRepository exScanners [exEmpty] exRepository exConfig 0) = [js ''setup.py''] \<and>
   scannedFiles (scanRepository exScanners [exEmpty] exRepository exConfig 0) = []"
  using empty_file_is_skipped [of exEmpty exScanners exConfig "[]" "[]" exRepository 0]
  by (simp add: exEmpty_def skippedFiles_scanRepository scannedFiles_scanRepository readable_def)

section \<open>Properties of the homoglyph detector\<close>

lemma includes_single: "includes' s [c] \<longleftrightarrow> c \<in> set s"
  by (induction s) auto

text \<open>\<open>needsHomoglyphScan\<close> is false on every ASCII text.\<close>

lemma needsHomoglyphScan_ascii:
  assumes "\<forall>c\<in>set s. c < 128"
  shows "\<not> needsHomoglyphScan s"
  using assms
  by (auto simp: needsHomoglyphScan_def hasNonAscii_def list_ex_iff includes_single
      INVISIBLE_CHARS_def BIDI_CHARS_def)

lemma invisibleAt_ascii: "s ! i < 128 \<Longrightarrow> invisibleAt s i = []"
  by (auto simp: invisibleAt_def INVISIBLE_CHARS_def BIDI_CHARS_def Let_def)

lemma detectInvisibleCharacters_ascii:
  assumes "\<forall>c\<in>set s. c < 128"
  shows "detectInvisibleCharacters s = []"
  using assms by (auto simp: detectInvisibleCharacters_def invisibleAt_ascii)

lemma homoglyphsAt_ascii: "s ! i < 128 \<Longrightarrow> (homoglyphsAt s i = []) = (s ! i \<noteq> 48)"
  by (auto simp: homoglyphsAt_def HOMOGLYPHS_def Let_def)

lemma detectHomoglyphs_ascii:
  assumes "\<forall>c\<in>set s. c < 128"
  shows "detectHomoglyphs s = [] \<longleftrightarrow> 48 \<notin> set s"
proof -
  have "detectHomoglyphs s = [] \<longleftrightarrow> (\<forall>i<length s. homoglyphsAt s i = [])"
    by (auto simp: detectHomoglyphs_def)
  also have "\<dots> \<longleftrightarrow> (\<forall>i<length s. s ! i \<noteq> 48)"
    using assms by (auto simp: homoglyphsAt_ascii)
  also have "\<dots> \<longleftrightarrow> 48 \<notin> set s"
    by (auto simp: in_set_conv_nth)
  finally show ?thesis .
qed

text \<open>
  On an ASCII text the analyzer finds nothing exactly when the text has no digit zero
  (code unit 48), which the table HOMOGLYPHS lists as a lookalike of \<open>o\<close>.
\<close>

lemma scanForHomoglyphs_ascii:
  assumes "\<forall>c\<in>set s. c < 128"
  shows "scanForHomoglyphs s p = [] \<longleftrightarrow> 48 \<notin> set s"
  using detectHomoglyphs_ascii [OF assms] detectInvisibleCharacters_ascii [OF assms]
  by (auto simp: scanForHomoglyphs_def Let_def)

lemmas homoglyph_eval =
  scanForHomoglyphs_def detectInvisibleCharacters_def detectHomoglyphs_def invisibleAt_def
  homoglyphsAt_def HOMOGLYPHS_def INVISIBLE_CHARS_def BIDI_CHARS_def hasMixedScripts_def
  looksLike_def codePointOf_def contextText_def numberToString.simps toHexUpper.simps
  hexDigitUpper_def padStart_def js_def Let_def upt_rec

text \<open>
  C6 at the ASCII text \<open>1.0.0\<close>. The text has no character outside ASCII and the quick check
  \<open>needsHomoglyphScan\<close> returns false, yet \<open>scanForHomoglyphs\<close> on the same text
  returns a YELLOW finding for its two zeros: skipping the analyzer loses it.
\<close>

theorem needsHomoglyphScan_loses_zero:
  "hasNonAscii (js ''1.0.0'') = False \<and>
   needsHomoglyphScan (js ''1.0.0'') = False \<and>
   scanForHomoglyphs (js ''1.0.0'') (js ''package.json'') =
     [\<lparr> riskLevel = YELLOW, filePath = js ''package.json'',
        description = js ''2 potential homoglyph character(s) detected'',
        lineNumber = None,
        matchedContent =
          Some ([39, 48, 39] @ js '' looks like '' @ [39, 111, 39] @ js '' at position 2; ''
                @ [39, 48, 39] @ js '' looks like '' @ [39, 111, 39] @ js '' at position 4''),
        category = HOMOGLYPH \<rparr>]"
  by (simp add: homoglyph_eval needsHomoglyphScan_def hasNonAscii_def)

section \<open>Properties of the entropy analyzer\<close>

lemma foldl_minus: "foldl (\<lambda>e c. e - g c) (a::real) cs = a - sum_list (map g cs)"
  by (induction cs arbitrary: a) (auto simp: algebra_simps)

lemma stringIterator_bmp:
  "\<forall>c\<in>set s. \<not> isHighSurrogate c \<Longrightarrow> stringIterator s = map (\<lambda>c. [c]) s"
  by (induction s rule: stringIterator.induct) auto

lemma concat_stringIterator: "concat (stringIterator s) = s"
  by (induction s rule: stringIterator.induct) auto

lemma length_stringIterator: "length (stringIterator s) \<le> length s"
  by (induction s rule: stringIterator.induct) auto

lemma not_both_surrogates: "\<not> (isHighSurrogate c \<and> isLowSurrogate c)"
  by (auto simp: isHighSurrogate_def isLowSurrogate_def)

lemma stringIterator_replicate: "stringIterator (replicate n c) = replicate n [c]"
proof (induction n)
  case 0
  then show ?case by simp
next
  case (Suc m)
  show ?case
  proof (cases m)
    case 0
    then show ?thesis by simp
  next
    case (Suc k)
    then have "stringIterator (replicate (Suc m) c) = [c] # stringIterator (replicate m c)"
      using not_both_surrogates [of c] by simp
    then show ?thesis using Suc.IH by simp
  qed
qed

subsection \<open>The frequencies\<close>

lemma countChar_fresh: "k \<notin> fst ` set m \<Longrightarrow> countChar m k = m @ [(k, 1)]"
  by (induction m) auto

lemma foldl_countChar_fresh:
  "distinct ks \<Longrightarrow> set ks \<inter> fst ` set m = {}
     \<Longrightarrow> foldl countChar m ks = m @ map (\<lambda>k. (k, 1)) ks"
proof (induction ks arbitrary: m)
  case Nil
  then show ?case by simp
next
  case (Cons k ks)
  have "k \<notin> fst ` set m" using Cons.prems by auto
  then have c: "countChar m k = m @ [(k, 1)]" by (rule countChar_fresh)
  have "set ks \<inter> fst ` set (m @ [(k, 1)]) = {}" using Cons.prems by auto
  moreover have "distinct ks" using Cons.prems by simp
  ultimately have "foldl countChar (m @ [(k, 1)]) ks = (m @ [(k, 1)]) @ map (\<lambda>k. (k, 1)) ks"
    by (rule Cons.IH [rotated])
  then show ?case using c by simp
qed

lemma foldl_countChar_same: "foldl countChar [(k, a)] (replicate n k) = [(k, a + n)]"
  by (induction n arbitrary: a) auto

lemma charFrequencies_replicate: "charFrequencies (replicate (Suc n) c) = [([c], Suc n)]"
proof -
  have "charFrequencies (replicate (Suc n) c) = foldl countChar [] (replicate (Suc n) [c])"
    unfolding charFrequencies_def stringIterator_replicate ..
  also have "\<dots> = foldl countChar [([c], 1)] (replicate n [c])" by simp
  also have "\<dots> = [([c], 1 + n)]" by (rule foldl_countChar_same)
  finally show ?thesis by simp
qed

lemma countChar_sum: "sum_list (map snd (countChar m ch)) = sum_list (map snd m) + 1"
  by (induction m) auto

lemma countChar_positive:
  "list_all (\<lambda>x. 0 < snd x) m \<Longrightarrow> list_all (\<lambda>x. 0 < snd x) (countChar m ch)"
  by (induction m) auto

lemma foldl_countChar_sum:
  "sum_list (map snd (foldl countChar m chs)) = sum_list (map snd m) + length chs"
  by (induction chs arbitrary: m) (auto simp: countChar_sum)

lemma foldl_countChar_positive:
  "list_all (\<lambda>x. 0 < snd x) m \<Longrightarrow> list_all (\<lambda>x. 0 < snd x) (foldl countChar m chs)"
proof (induction chs arbitrary: m)
  case Nil
  then show ?case by simp
next
  case (Cons ch chs)
  have "list_all (\<lambda>x. 0 < snd x) (countChar m ch)" using Cons.prems by (rule countChar_positive)
  then show ?case using Cons.IH by simp
qed

lemma charFrequencies_bounds:
  assumes "n \<in> set (map snd (charFrequencies s))"
  shows "0 < n \<and> n \<le> length s"
proof -
  have "0 < n"
    using assms foldl_countChar_positive [of "[]" "stringIterator s"]
    by (auto simp: charFrequencies_def list_all_iff)
  moreover have "n \<le> sum_list (map snd (charFrequencies s))"
    using assms by (intro member_le_sum_list) simp_all
  moreover have "sum_list (map snd (charFrequencies s)) = length (stringIterator s)"
    by (simp add: charFrequencies_def foldl_countChar_sum)
  ultimately show ?thesis using length_stringIterator [of s] by linarith
qed

lemma countChar_keys:
  "map fst (countChar m ch)
     = (if ch \<in> set (map fst m) then map fst m else map fst m @ [ch])"
proof (induction m)
  case Nil
  then show ?case by simp
next
  case (Cons x m)
  obtain a b where x: "x = (a, b)" by (cases x)
  show ?case using Cons unfolding x by (cases "a = ch") simp_all
qed

lemma countChar_distinct: "distinct (map fst m) \<Longrightarrow> distinct (map fst (countChar m ch))"
  by (simp add: countChar_keys)

lemma countChar_map_of:
  "map_of (countChar m ch) k = (if k = ch then Some (freqOf m ch + 1) else map_of m k)"
  by (induction m) (auto simp: freqOf_def)

lemma foldl_countChar_distinct:
  "distinct (map fst m) \<Longrightarrow> distinct (map fst (foldl countChar m chs))"
  by (induction chs arbitrary: m) (auto simp: countChar_distinct simp del: countChar.simps)

lemma foldl_countChar_map_of:
  "distinct (map fst m) \<Longrightarrow>
   map_of (foldl countChar m chs) k =
     (if k \<in> set chs then Some (freqOf m k + count_list chs k) else map_of m k)"
proof (induction chs arbitrary: m)
  case Nil
  then show ?case by simp
next
  case (Cons ch chs)
  have d: "distinct (map fst (countChar m ch))" using Cons.prems by (rule countChar_distinct)
  show ?case
    using Cons.IH [OF d] countChar_map_of [of m ch]
    by (auto simp: freqOf_def split: option.splits)
qed

lemma charFrequencies_mset:
  assumes "mset (stringIterator s) = mset (stringIterator t)"
  shows "mset (charFrequencies s) = mset (charFrequencies t)"
proof -
  have c: "\<And>k. count_list (stringIterator s) k = count_list (stringIterator t) k"
    using assms by (metis count_mset)
  have st: "set (stringIterator s) = set (stringIterator t)" using assms by (rule mset_eq_setD)
  have "map_of (charFrequencies s) = map_of (charFrequencies t)"
    by (rule ext) (simp add: charFrequencies_def foldl_countChar_map_of c st)
  moreover have ds: "distinct (map fst (charFrequencies s))" "distinct (map fst (charFrequencies t))"
    by (simp_all add: charFrequencies_def foldl_countChar_distinct)
  ultimately have "set (charFrequencies s) = set (charFrequencies t)"
    by (simp add: map_of_inject_set)
  moreover have "distinct (charFrequencies s)" "distinct (charFrequencies t)"
    using ds by (simp_all add: distinct_map)
  ultimately show ?thesis by (simp add: set_eq_iff_mset_eq_distinct)
qed

subsection \<open>Where the entropy behaves as the specification says\<close>

text \<open>One code unit repeated has entropy 0, and so has the empty string.\<close>

lemma calculateEntropy_replicate: "calculateEntropy (replicate n c) = 0"
proof (cases n)
  case 0
  then show ?thesis by (simp add: calculateEntropy_def)
next
  case (Suc m)
  have "calculateEntropy (replicate (Suc m) c) = 0"
    unfolding calculateEntropy_def charFrequencies_replicate by simp
  then show ?thesis using Suc by simp
qed

lemma entropy_term_nonpos:
  assumes "0 < n" "n \<le> l"
  shows "(real n / real l) * log 2 (real n / real l) \<le> 0"
proof -
  have p: "0 < real n / real l" "real n / real l \<le> 1" using assms by auto
  then have "log 2 (real n / real l) \<le> 0" by simp
  with p(1) show ?thesis by (intro mult_nonneg_nonpos) simp_all
qed

text \<open>The entropy is never negative.\<close>

lemma calculateEntropy_nonneg: "0 \<le> calculateEntropy s"
proof (cases "length s = 0")
  case True
  then show ?thesis by (simp add: calculateEntropy_def)
next
  case False
  define g where "g = (\<lambda>c. (real c / real (length s)) * log 2 (real c / real (length s)))"
  have "\<And>c. c \<in> set (map snd (charFrequencies s)) \<Longrightarrow> g c \<le> 0"
    unfolding g_def using charFrequencies_bounds entropy_term_nonpos by blast
  then have "sum_list (map g (map snd (charFrequencies s))) \<le> 0"
    by (intro sum_list_nonpos) auto
  moreover have "calculateEntropy s = 0 - sum_list (map g (map snd (charFrequencies s)))"
    using False unfolding calculateEntropy_def g_def by (simp only: foldl_minus if_False)
  ultimately show ?thesis by simp
qed

text \<open>
  The entropy is the same for two strings with the same code points, in any order;
  for strings without a high surrogate these are the permutations of the code units.
\<close>

lemma calculateEntropy_code_point_permutation:
  assumes "mset (stringIterator s) = mset (stringIterator t)"
  shows "calculateEntropy s = calculateEntropy t"
proof -
  have "length (concat (stringIterator s)) = length (concat (stringIterator t))"
    using assms by (simp add: length_concat) (metis mset_map sum_mset_sum_list)
  then have l: "length s = length t" by (simp add: concat_stringIterator)
  define g where "g = (\<lambda>c. (real c / real (length t)) * log 2 (real c / real (length t)))"
  have "mset (map snd (charFrequencies s)) = mset (map snd (charFrequencies t))"
    using charFrequencies_mset [OF assms] by (metis mset_map)
  then have "mset (map g (map snd (charFrequencies s))) = mset (map g (map snd (charFrequencies t)))"
    by (metis mset_map)
  then have "sum_list (map g (map snd (charFrequencies s)))
      = sum_list (map g (map snd (charFrequencies t)))"
    by (metis sum_mset_sum_list)
  then show ?thesis
    unfolding calculateEntropy_def l g_def foldl_minus by simp
qed

lemma calculateEntropy_permutation_bmp:
  assumes "mset s = mset t" "\<forall>c\<in>set s. \<not> isHighSurrogate c"
  shows "calculateEntropy s = calculateEntropy t"
proof -
  have "set s = set t" using assms(1) by (rule mset_eq_setD)
  then have "\<forall>c\<in>set t. \<not> isHighSurrogate c" using assms(2) by simp
  then have "mset (stringIterator s) = mset (stringIterator t)"
    using assms by (simp add: stringIterator_bmp)
  then show ?thesis by (rule calculateEntropy_code_point_permutation)
qed

lemma log2_half: "log 2 (1 / 2) = - 1"
  by (simp add: log_divide)

text \<open>
  C7 at the string of one character repeated twice, U+1F600 U+1F600 (four code units,
  two surrogate pairs). The loop counts the one character twice, the probability is
  its count 2 divided by the length 4 in code units, and the entropy is 1/2, not 0.
\<close>

theorem calculateEntropy_repeated_astral:
  "stringIterator [0xD83D, 0xDE00, 0xD83D, 0xDE00] = [[0xD83D, 0xDE00], [0xD83D, 0xDE00]] \<and>
   calculateEntropy [0xD83D, 0xDE00, 0xD83D, 0xDE00] = 1 / 2 \<and>
   calculateEntropy [0xD83D, 0xDE00, 0xD83D, 0xDE00] \<noteq> 0"
proof -
  have "(2::real) / 4 = 1 / 2" by simp
  then show ?thesis
    by (simp add: calculateEntropy_def charFrequencies_def isHighSurrogate_def
        isLowSurrogate_def log2_half del: divide_eq_eq_numeral1)
qed

subsection \<open>The window at the end of the text\<close>

text \<open>A string of pairwise different code units outside the surrogates.\<close>

lemma calculateEntropy_distinct:
  assumes "distinct s" "\<forall>c\<in>set s. \<not> isHighSurrogate c" "s \<noteq> []"
  shows "calculateEntropy s = log 2 (real (length s))"
proof -
  have d: "distinct (map (\<lambda>c. [c]) s)" using assms(1) by (simp add: distinct_map inj_on_def)
  have "charFrequencies s = map (\<lambda>k. (k, 1)) (map (\<lambda>c. [c]) s)"
    unfolding charFrequencies_def stringIterator_bmp [OF assms(2)]
    using foldl_countChar_fresh [OF d, of "[]"] by simp
  then have m: "map snd (charFrequencies s) = replicate (length s) 1"
    by (simp add: comp_def map_replicate_const)
  have n: "real (length s) > 0" using assms(3) by simp
  have "calculateEntropy s
      = - (real (length s) * ((1 / real (length s)) * log 2 (1 / real (length s))))"
    using assms(3) by (simp add: calculateEntropy_def m foldl_minus sum_list_replicate)
  also have "\<dots> = - log 2 (1 / real (length s))" using n by simp
  also have "\<dots> = log 2 (real (length s))" using n by (simp add: log_divide)
  finally show ?thesis .
qed

lemma log2_100: "13 / 2 \<le> log 2 (100::real)"
proof -
  have "(2 powr 13) powr (1 / 2) = (2::real) powr (13 * (1 / 2))" by (rule powr_powr)
  then have "(2::real) powr (13 / 2) = (2 powr 13) powr (1 / 2)" by simp
  also have "\<dots> = sqrt (2 powr 13)" by (rule powr_half_sqrt) simp
  also have "\<dots> = sqrt 8192" by simp
  also have "\<dots> \<le> 100" by (rule real_le_lsqrt) simp_all
  finally have "(2::real) powr (13 / 2) \<le> 100" .
  then show ?thesis by (subst le_log_iff) simp_all
qed

lemma filter_upt_skip:
  "a \<le> b \<Longrightarrow> (\<forall>j. a \<le> j \<and> j < b \<longrightarrow> \<not> P j) \<Longrightarrow> filter P [a..<n] = filter P [b..<n]"
proof (induction "b - a" arbitrary: a)
  case 0
  then show ?case by simp
next
  case (Suc d)
  then have ab: "a < b" by simp
  then have na: "\<not> P a" using Suc.prems by simp
  have step: "filter P [a..<n] = filter P [Suc a..<n]"
  proof (cases "a < n")
    case True
    then show ?thesis using na by (simp add: upt_conv_Cons)
  next
    case False
    then show ?thesis by simp
  qed
  have "filter P [Suc a..<n] = filter P [b..<n]"
    using Suc.hyps(2) ab Suc.prems by (intro Suc.hyps(1)) auto
  with step show ?case by simp
qed

lemma offsets_step:
  assumes "0 < s" "i mod s = 0" "i < n"
  shows "filter (\<lambda>j. j mod s = 0) [i..<n] = i # filter (\<lambda>j. j mod s = 0) [i + s..<n]"
proof -
  have "\<forall>j. Suc i \<le> j \<and> j < i + s \<longrightarrow> \<not> (j mod s = 0)"
  proof (intro allI impI)
    fix j assume j: "Suc i \<le> j \<and> j < i + s"
    define d where "d = j - i"
    have d: "j = i + d" "0 < d" "d < s" using j unfolding d_def by linarith+
    have "j mod s = d" using d assms(2) by (simp add: mod_add_left_eq[symmetric])
    then show "\<not> (j mod s = 0)" using d by simp
  qed
  then have "filter (\<lambda>j. j mod s = 0) [Suc i..<n] = filter (\<lambda>j. j mod s = 0) [i + s..<n]"
    using assms(1) by (intro filter_upt_skip) auto
  then show ?thesis using assms by (simp add: upt_conv_Cons)
qed

lemma entropyLoop_foldl:
  "0 < s \<Longrightarrow> i mod s = 0 \<Longrightarrow>
   entropyLoop c p w s i st =
     foldl (\<lambda>st j. entropyWindow c p w j st) st (filter (\<lambda>j. j mod s = 0) [i..<length c - w])"
proof (induction c p w s i st rule: entropyLoop.induct)
  case (1 c p w s i st)
  show ?case
  proof (cases "i < length c - w")
    case True
    have m: "(i + s) mod s = 0" using 1(3) by simp
    have "entropyLoop c p w s i st = entropyLoop c p w s (i + s) (entropyWindow c p w i st)"
      using True 1(2) by (subst entropyLoop.simps) simp
    also have "\<dots> = foldl (\<lambda>st j. entropyWindow c p w j st) (entropyWindow c p w i st)
        (filter (\<lambda>j. j mod s = 0) [i + s..<length c - w])"
      using 1(1) True 1(2) m by simp
    finally show ?thesis using offsets_step[OF 1(2) 1(3) True] by simp
  next
    case False
    then show ?thesis by (subst entropyLoop.simps) simp
  qed
qed

lemma entropyRawFindings_offsets:
  "0 < s \<Longrightarrow> entropyRawFindings c p w s =
     snd (foldl (\<lambda>st j. entropyWindow c p w j st) ({}, []) (windowOffsets (length c) w s))"
  by (simp add: entropyRawFindings_def windowOffsets_def entropyLoop_foldl)

lemma windowOffsets_default:
  "windowOffsets 100 100 50 = []" "windowOffsets 101 100 50 = [0]"
  "windowOffsets 200 100 50 = [0, 50]" "windowOffsets 201 100 50 = [0, 50, 100]"
  by (simp_all add: windowOffsets_def upt_rec)

text \<open>
  C5 at a text of exactly 100 code units, the 100 different characters from U+0020 to
  U+0083. Its entropy is \<open>log 2 100\<close>, which is critical, and the scan with the default
  window 100 and step 50 returns no finding: the condition of the loop,
  \<open>i < content.length - windowSize\<close>, is false at \<open>i = 0\<close>.
\<close>

theorem scanForHighEntropy_misses_exact_window:
  "length [32..<132] = 100 \<and>
   classifyEntropy (calculateEntropy [32..<132]) = Critical \<and>
   scanForHighEntropy [32..<132] (js ''payload.txt'') 100 50 = Some []"
proof -
  have "calculateEntropy [32..<132] = log 2 (real (length [32..<132]))"
    by (rule calculateEntropy_distinct) (auto simp: isHighSurrogate_def)
  then have "calculateEntropy [32..<132] = log 2 100" by simp
  then have "classifyEntropy (calculateEntropy [32..<132]) = Critical"
    using log2_100 by (simp add: classifyEntropy_def ENTROPY_CRITICAL_def)
  moreover have "scanForHighEntropy [32..<132] (js ''payload.txt'') 100 50 = Some []"
    by (simp add: scanForHighEntropy_def entropyRawFindings_def entropyLoop.simps
        limitEntropyFindings_def)
  ultimately show ?thesis by simp
qed

section \<open>Properties of the caps on the findings\<close>

lemma limitEntropyFindings_length: "length (limitEntropyFindings p raw) \<le> 6"
  by (auto simp: limitEntropyFindings_def Let_def)

lemma limitEntropyFindings_shape:
  "limitEntropyFindings p raw =
     (if length raw > 5
      then take 3 (filter (\<lambda>f. riskLevel f = RED) raw)
           @ take 2 (filter (\<lambda>f. riskLevel f = YELLOW) raw)
           @ [entropySummary p
                (length raw - length (take 3 (filter (\<lambda>f. riskLevel f = RED) raw)
                                      @ take 2 (filter (\<lambda>f. riskLevel f = YELLOW) raw)))]
      else raw)"
  by (auto simp: limitEntropyFindings_def Let_def)

lemma scanForHighEntropy_default_returns:
  "\<exists>fs. scanForHighEntropy c p 100 50 = Some fs \<and> length fs \<le> 6"
  by (auto simp: scanForHighEntropy_def Let_def limitEntropyFindings_length)

lemma limitSecondaryFindings_length: "length (limitSecondaryFindings p raw) \<le> 6"
  by (auto simp: limitSecondaryFindings_def)

lemmas regex_eval =
  matchAll_def matchAllFrom.simps nextSearch_def regexTest_def classHas_def isWhiteSpace_def
  isLineTerminator_def canonicalize_def matched_def atWordBoundary_def isWordChar_def ws_def
  js_def matchGroup_def

lemmas secondary_eval =
  scanForSecondaryScripts_def secondaryRawFindings_def categoryFindings_def
  SECONDARY_SCRIPT_PATTERNS_def shellPatterns_def powershellPatterns_def nodePatterns_def
  pythonPatterns_def dynamicPatterns_def extractUrls_def urlPattern_def uniqueInOrder_def
  isSuspiciousUrl_def toLowerCase_def lowerChar_def limitSecondaryFindings_def
  secondarySummary_def secondaryFinding_def numberToString.simps Let_def

lemma secondaryRawFindings_exSixRequires:
  "secondaryRawFindings exSixRequires p =
     map (\<lambda>m. secondaryFinding p (js ''dynamic'') (js m))
       [''require(a'', ''require(b'', ''require(c'', ''require(d'', ''require(e'', ''require(f'']"
  by (simp add: exSixRequires_def secondary_eval regex_eval)

lemma countChar_append_hit:
  "k \<notin> fst ` set pre \<Longrightarrow> countChar (pre @ (k, n) # rest) k = pre @ (k, Suc n) # rest"
  by (induction pre) auto

lemma foldl_countChar_again:
  "distinct ks \<Longrightarrow> fst ` set pre \<inter> set ks = {} \<Longrightarrow>
   foldl countChar (pre @ map (\<lambda>k. (k, n)) ks) ks = pre @ map (\<lambda>k. (k, Suc n)) ks"
proof (induction ks arbitrary: pre)
  case Nil
  then show ?case by simp
next
  case (Cons k ks)
  have "k \<notin> fst ` set pre" using Cons.prems by auto
  then have c: "countChar (pre @ (k, n) # map (\<lambda>k. (k, n)) ks) k = pre @ (k, Suc n) # map (\<lambda>k. (k, n)) ks"
    by (rule countChar_append_hit)
  have "fst ` set (pre @ [(k, Suc n)]) \<inter> set ks = {}" using Cons.prems by auto
  moreover have "distinct ks" using Cons.prems by simp
  ultimately have "foldl countChar ((pre @ [(k, Suc n)]) @ map (\<lambda>k. (k, n)) ks) ks
      = (pre @ [(k, Suc n)]) @ map (\<lambda>k. (k, Suc n)) ks"
    by (rule Cons.IH[rotated])
  then show ?case using c by simp
qed

lemma calculateEntropy_twice:
  assumes "distinct s" "\<forall>c\<in>set s. \<not> isHighSurrogate c" "s \<noteq> []"
  shows "calculateEntropy (s @ s) = log 2 (real (length s))"
proof -
  let ?ks = "map (\<lambda>c. [c]) s"
  have d: "distinct ?ks" using assms(1) by (simp add: distinct_map inj_on_def)
  have it: "stringIterator (s @ s) = ?ks @ ?ks"
    using assms(2) by (simp add: stringIterator_bmp)
  have "foldl countChar [] ?ks = map (\<lambda>k. (k, 1)) ?ks"
    using foldl_countChar_fresh[OF d, of "[]"] by simp
  then have "charFrequencies (s @ s) = foldl countChar ([] @ map (\<lambda>k. (k, 1)) ?ks) ?ks"
    by (simp add: charFrequencies_def it)
  also have "\<dots> = [] @ map (\<lambda>k. (k, Suc 1)) ?ks"
    using d by (intro foldl_countChar_again) simp_all
  finally have m: "map snd (charFrequencies (s @ s)) = replicate (length s) 2"
    by (simp add: comp_def map_replicate_const)
  have n: "real (length s) > 0" using assms(3) by simp
  have "calculateEntropy (s @ s)
      = - (real (length s) * ((2 / real (length s + length s)) * log 2 (2 / real (length s + length s))))"
    using assms(3) by (simp add: calculateEntropy_def m foldl_minus sum_list_replicate)
  also have "2 / real (length s + length s) = 1 / real (length s)" using n by simp
  also have "- (real (length s) * (1 / real (length s) * log 2 (1 / real (length s)))) = - log 2 (1 / real (length s))"
    using n by simp
  also have "\<dots> = log 2 (real (length s))" using n by (simp add: log_divide)
  finally show ?thesis .
qed

lemma log2_50_ge: "11 / 2 \<le> log 2 (50::real)"
proof -
  have "(2 powr 11) powr (1 / 2) = (2::real) powr (11 * (1 / 2))" by (rule powr_powr)
  then have "(2::real) powr (11 / 2) = (2 powr 11) powr (1 / 2)" by simp
  also have "\<dots> = sqrt (2 powr 11)" by (rule powr_half_sqrt) simp
  also have "\<dots> = sqrt 2048" by simp
  also have "\<dots> \<le> 50" by (rule real_le_lsqrt) simp_all
  finally have "(2::real) powr (11 / 2) \<le> 50" .
  then show ?thesis by (subst le_log_iff) simp_all
qed

lemma log2_50_lt: "log 2 (50::real) < 13 / 2"
proof -
  have "log 2 (50::real) < log 2 64" by simp
  also have "log 2 (64::real) = 6" using log_pow_cancel [of 2 6] by simp
  finally show ?thesis by simp
qed

lemma length_exSixRegions: "length exSixRegions = 1300"
  by (simp add: exSixRegions_def)

lemma slice_exSixRegions:
  "slice exSixRegions 0 100 = [1000..<1100]"
  "slice exSixRegions 200 300 = [1000..<1100]"
  "slice exSixRegions 400 500 = [1000..<1100]"
  "slice exSixRegions 600 700 = [1000..<1050] @ [1000..<1050]"
  "slice exSixRegions 800 900 = [1000..<1050] @ [1000..<1050]"
  "slice exSixRegions 1000 1100 = [1000..<1050] @ [1000..<1050]"
  by (simp_all add: exSixRegions_def slice_def)

lemma classifyEntropy_hundred_distinct:
  "classifyEntropy (calculateEntropy [1000..<1100]) = Critical"
proof -
  have "calculateEntropy [1000..<1100] = log 2 (real (length [1000..<1100]))"
    by (rule calculateEntropy_distinct) (auto simp: isHighSurrogate_def)
  then show ?thesis using log2_100 by (simp add: classifyEntropy_def ENTROPY_CRITICAL_def)
qed

lemma classifyEntropy_fifty_twice:
  "classifyEntropy (calculateEntropy ([1000..<1050] @ [1000..<1050])) = High"
proof -
  have "calculateEntropy ([1000..<1050] @ [1000..<1050]) = log 2 (real (length [1000..<1050]))"
    by (rule calculateEntropy_twice) (auto simp: isHighSurrogate_def)
  then show ?thesis using log2_50_ge log2_50_lt
    by (simp add: classifyEntropy_def ENTROPY_CRITICAL_def ENTROPY_WARNING_def)
qed

lemma fifty_twice_not_base64: "\<not> isLikelyBase64 ([1000..<1050] @ [1000..<1050])"
  by (simp add: isLikelyBase64_def removeWhiteSpace_def isWhiteSpace_def isLineTerminator_def
     base64Pattern_def regexTest_def classHas_def canonicalize_def upt_rec Let_def)

lemma fifty_twice_not_hex: "\<not> isLikelyHex ([1000..<1050] @ [1000..<1050])"
  by (simp add: isLikelyHex_def removeWhiteSpace_def isWhiteSpace_def isLineTerminator_def
     hexPattern_def regexTest_def classHas_def canonicalize_def upt_rec Let_def)

lemma levels_skip:
  "i div 200 \<in> fst (levels st) \<Longrightarrow> levels (entropyWindow c p 100 i st) = levels st"
  by (simp add: levels_def entropyWindow_def Let_def)

lemma levels_red:
  "i div 200 \<notin> fst (levels st) \<Longrightarrow> slice c i (i + 100) = [1000..<1100]
   \<Longrightarrow> levels (entropyWindow c p 100 i st)
       = (insert (i div 200) (fst (levels st)), snd (levels st) @ [RED])"
  using classifyEntropy_hundred_distinct by (simp add: levels_def entropyWindow_def Let_def)

lemma levels_yellow:
  "i div 200 \<notin> fst (levels st) \<Longrightarrow> slice c i (i + 100) = [1000..<1050] @ [1000..<1050]
   \<Longrightarrow> levels (entropyWindow c p 100 i st)
       = (insert (i div 200) (fst (levels st)), snd (levels st) @ [YELLOW])"
  using classifyEntropy_fifty_twice fifty_twice_not_base64 fifty_twice_not_hex
  by (simp add: levels_def entropyWindow_def Let_def)

lemma entropyLoop_step:
  "i < 1200 \<Longrightarrow> j = i + 50 \<Longrightarrow> entropyLoop exSixRegions p 100 50 i st
     = entropyLoop exSixRegions p 100 50 j (entropyWindow exSixRegions p 100 i st)"
  by (subst entropyLoop.simps) (simp add: length_exSixRegions)

lemma entropyLoop_end: "entropyLoop exSixRegions p 100 50 1200 st = st"
  by (subst entropyLoop.simps) (simp add: length_exSixRegions)

lemma entropyLoop_region:
  assumes "k < 6" and "levels st = (R, L)" and "k \<notin> R"
    and "levels (entropyWindow exSixRegions p 100 (200 * k) st) = (insert k R, L @ [x])"
  shows "\<exists>st'. entropyLoop exSixRegions p 100 50 (200 * k) st
                 = entropyLoop exSixRegions p 100 50 (200 * (k + 1)) st'
               \<and> levels st' = (insert k R, L @ [x])"
proof -
  define s1 where "s1 = entropyWindow exSixRegions p 100 (200 * k) st"
  define s2 where "s2 = entropyWindow exSixRegions p 100 (200 * k + 50) s1"
  define s3 where "s3 = entropyWindow exSixRegions p 100 (200 * k + 100) s2"
  define s4 where "s4 = entropyWindow exSixRegions p 100 (200 * k + 150) s3"
  have l1: "levels s1 = (insert k R, L @ [x])"
    using assms(4) by (simp add: s1_def)
  have l2: "levels s2 = (insert k R, L @ [x])"
    unfolding s2_def using levels_skip [of "200 * k + 50" s1 exSixRegions p] l1 by simp
  have l3: "levels s3 = (insert k R, L @ [x])"
    unfolding s3_def using levels_skip [of "200 * k + 100" s2 exSixRegions p] l2 by simp
  have l4: "levels s4 = (insert k R, L @ [x])"
    unfolding s4_def using levels_skip [of "200 * k + 150" s3 exSixRegions p] l3 by simp
  have "entropyLoop exSixRegions p 100 50 (200 * k) st
          = entropyLoop exSixRegions p 100 50 (200 * k + 50) s1"
    unfolding s1_def using assms(1) by (intro entropyLoop_step) simp_all
  also have "\<dots> = entropyLoop exSixRegions p 100 50 (200 * k + 100) s2"
    unfolding s2_def using assms(1) by (intro entropyLoop_step) simp_all
  also have "\<dots> = entropyLoop exSixRegions p 100 50 (200 * k + 150) s3"
    unfolding s3_def using assms(1) by (intro entropyLoop_step) simp_all
  also have "\<dots> = entropyLoop exSixRegions p 100 50 (200 * (k + 1)) s4"
    unfolding s4_def using assms(1) by (intro entropyLoop_step) simp_all
  finally show ?thesis using l4 by blast
qed

lemma entropyRawFindings_exSixRegions:
  "map riskLevel (entropyRawFindings exSixRegions p 100 50)
     = [RED, RED, RED, YELLOW, YELLOW, YELLOW]"
proof -
  let ?loop = "entropyLoop exSixRegions p 100 50"
  have l0: "levels ({}, []) = ({}, [])" by (simp add: levels_def)
  obtain s1 where s1: "?loop 0 ({}, []) = ?loop 200 s1" "levels s1 = ({0}, [RED])"
    using entropyLoop_region [of 0 "({}, [])" "{}" "[]" p RED]
      levels_red [of 0 "({}, [])" exSixRegions p] l0 slice_exSixRegions(1) by auto
  obtain s2 where s2: "?loop 200 s1 = ?loop 400 s2" "levels s2 = ({1, 0}, [RED, RED])"
    using entropyLoop_region [of 1 s1 "{0}" "[RED]" p RED]
      levels_red [of 200 s1 exSixRegions p] s1(2) slice_exSixRegions(2) by auto
  obtain s3 where s3: "?loop 400 s2 = ?loop 600 s3" "levels s3 = ({2, 1, 0}, [RED, RED, RED])"
    using entropyLoop_region [of 2 s2 "{1, 0}" "[RED, RED]" p RED]
      levels_red [of 400 s2 exSixRegions p] s2(2) slice_exSixRegions(3) by auto
  obtain s4 where s4: "?loop 600 s3 = ?loop 800 s4"
      "levels s4 = ({3, 2, 1, 0}, [RED, RED, RED, YELLOW])"
    using entropyLoop_region [of 3 s3 "{2, 1, 0}" "[RED, RED, RED]" p YELLOW]
      levels_yellow [of 600 s3 exSixRegions p] s3(2) slice_exSixRegions(4) by auto
  obtain s5 where s5: "?loop 800 s4 = ?loop 1000 s5"
      "levels s5 = ({4, 3, 2, 1, 0}, [RED, RED, RED, YELLOW, YELLOW])"
    using entropyLoop_region [of 4 s4 "{3, 2, 1, 0}" "[RED, RED, RED, YELLOW]" p YELLOW]
      levels_yellow [of 800 s4 exSixRegions p] s4(2) slice_exSixRegions(5) by auto
  obtain s6 where s6: "?loop 1000 s5 = ?loop 1200 s6"
      "levels s6 = ({5, 4, 3, 2, 1, 0}, [RED, RED, RED, YELLOW, YELLOW, YELLOW])"
    using entropyLoop_region [of 5 s5 "{4, 3, 2, 1, 0}" "[RED, RED, RED, YELLOW, YELLOW]" p YELLOW]
      levels_yellow [of 1000 s5 exSixRegions p] s5(2) slice_exSixRegions(6) by auto
  have "?loop 0 ({}, []) = s6"
    using s1(1) s2(1) s3(1) s4(1) s5(1) s6(1) entropyLoop_end [of p s6] by simp
  then show ?thesis using s6(2) by (simp add: entropyRawFindings_def levels_def)
qed

lemma limitEntropyFindings_levels:
  "map riskLevel (limitEntropyFindings p raw) =
     (if length raw > 5
      then take 3 (filter (\<lambda>l. l = RED) (map riskLevel raw))
           @ take 2 (filter (\<lambda>l. l = YELLOW) (map riskLevel raw)) @ [YELLOW]
      else map riskLevel raw)"
  by (auto simp: limitEntropyFindings_def Let_def entropySummary_def take_map filter_map comp_def)

lemma scanForHighEntropy_exSixRegions:
  "map_option (map riskLevel) (scanForHighEntropy exSixRegions p 100 50)
     = Some [RED, RED, RED, YELLOW, YELLOW, YELLOW]"
proof -
  let ?raw = "entropyRawFindings exSixRegions p 100 50"
  have m: "map riskLevel ?raw = [RED, RED, RED, YELLOW, YELLOW, YELLOW]"
    by (rule entropyRawFindings_exSixRegions)
  then have len: "length ?raw = 6"
    using length_map [of riskLevel ?raw] by simp
  have "map riskLevel (limitEntropyFindings p ?raw) = [RED, RED, RED, YELLOW, YELLOW, YELLOW]"
    unfolding limitEntropyFindings_levels m using len by simp
  then show ?thesis
    by (simp add: scanForHighEntropy_def length_exSixRegions)
qed

text \<open>
  C4, as the code has it. Both scanners return at most 6 findings: at most 5 kept ones
  and, when more than 5 were detected, one YELLOW summary finding that counts the rest.
  With the default window and step the Entropy Analyzer always returns; for a content
  of at least one window it keeps the first 3 RED and the first 2 YELLOW findings of
  the detected ones. The Secondary-Payload Scanner keeps the first 5 detected findings,
  whatever their severity.
\<close>

theorem findings_capped_at_six:
  "(\<exists>fs. scanForHighEntropy content' p 100 50 = Some fs \<and> length fs \<le> 6) \<and>
   (100 \<le> length content' \<longrightarrow>
      scanForHighEntropy content' p 100 50
        = Some (limitEntropyFindings p (entropyRawFindings content' p 100 50))) \<and>
   limitEntropyFindings p raw =
     (if length raw > 5
      then take 3 (filter (\<lambda>f. riskLevel f = RED) raw)
           @ take 2 (filter (\<lambda>f. riskLevel f = YELLOW) raw)
           @ [entropySummary p
                (length raw - length (take 3 (filter (\<lambda>f. riskLevel f = RED) raw)
                                      @ take 2 (filter (\<lambda>f. riskLevel f = YELLOW) raw)))]
      else raw) \<and>
   riskLevel (entropySummary p n) = YELLOW \<and>
   length (scanForSecondaryScripts content' p) \<le> 6 \<and>
   scanForSecondaryScripts content' p =
     (if length (secondaryRawFindings content' p) > 5
      then take 5 (secondaryRawFindings content' p)
           @ [secondarySummary p (length (secondaryRawFindings content' p) - 5)]
      else secondaryRawFindings content' p) \<and>
   riskLevel (secondarySummary p n) = YELLOW"
proof (intro conjI)
  show "\<exists>fs. scanForHighEntropy content' p 100 50 = Some fs \<and> length fs \<le> 6"
    by (rule scanForHighEntropy_default_returns)
  show "100 \<le> length content' \<longrightarrow>
      scanForHighEntropy content' p 100 50
        = Some (limitEntropyFindings p (entropyRawFindings content' p 100 50))"
    by (simp add: scanForHighEntropy_def)
  show "limitEntropyFindings p raw =
     (if length raw > 5
      then take 3 (filter (\<lambda>f. riskLevel f = RED) raw)
           @ take 2 (filter (\<lambda>f. riskLevel f = YELLOW) raw)
           @ [entropySummary p
                (length raw - length (take 3 (filter (\<lambda>f. riskLevel f = RED) raw)
                                      @ take 2 (filter (\<lambda>f. riskLevel f = YELLOW) raw)))]
      else raw)"
    by (rule limitEntropyFindings_shape)
  show "riskLevel (entropySummary p n) = YELLOW"
    by (simp add: entropySummary_def)
  show "length (scanForSecondaryScripts content' p) \<le> 6"
    by (simp add: scanForSecondaryScripts_def limitSecondaryFindings_length)
  show "scanForSecondaryScripts content' p =
     (if length (secondaryRawFindings content' p) > 5
      then take 5 (secondaryRawFindings content' p)
           @ [secondarySummary p (length (secondaryRawFindings content' p) - 5)]
      else secondaryRawFindings content' p)"
    by (simp add: scanForSecondaryScripts_def limitSecondaryFindings_def)
  show "riskLevel (secondarySummary p n) = YELLOW"
    by (simp add: secondarySummary_def)
qed

theorem findings_capped_at_six_witness:
  "scanForSecondaryScripts exSixRequires (js ''index.js'') =
     map (\<lambda>m. secondaryFinding (js ''index.js'') (js ''dynamic'') (js m))
       [''require(a'', ''require(b'', ''require(c'', ''require(d'', ''require(e'']
     @ [secondarySummary (js ''index.js'') 1] \<and>
   scanForHighEntropy (replicate 100 120) (js ''index.js'') 100 50 = Some []"
  using findings_capped_at_six [of "replicate 100 120" "js ''index.js''" "[]" 0]
    findings_capped_at_six [of exSixRequires "js ''index.js''" "[]" 0]
  by (simp add: secondaryRawFindings_exSixRequires entropyRawFindings_def entropyLoop.simps
      limitEntropyFindings_def)

text \<open>
  C4 as stated fails: on a file with six dynamic \<open>require\<close> calls the
  Secondary-Payload Scanner returns six findings, five RED ones and the summary; on a
  content with three critical and three high regions the Entropy Analyzer returns six
  findings, three RED ones, two YELLOW ones and the summary.
\<close>

theorem scanners_return_six:
  "length (scanForSecondaryScripts exSixRequires (js ''index.js'')) = 6 \<and>
   \<not> length (scanForSecondaryScripts exSixRequires (js ''index.js'')) \<le> 5 \<and>
   map riskLevel (scanForSecondaryScripts exSixRequires (js ''index.js''))
     = [RED, RED, RED, RED, RED, YELLOW] \<and>
   map_option (map riskLevel) (scanForHighEntropy exSixRegions (js ''index.js'') 100 50)
     = Some [RED, RED, RED, YELLOW, YELLOW, YELLOW]"
  using scanForHighEntropy_exSixRegions [of "js ''index.js''"]
  by (simp add: scanForSecondaryScripts_def secondaryRawFindings_exSixRequires
      limitSecondaryFindings_def secondaryFinding_def secondarySummary_def)

section \<open>Properties of the workflow scanner\<close>

lemma scanLine_hasPullRequestTarget:
  "hasPullRequestTarget (scanLine lines p st i)
     = (hasPullRequestTarget st \<or> includes' (trim (lines ! i)) (js ''pull_request_target''))"
  by (simp add: scanLine_def Let_def)


lemma scanLine_checkoutRef:
  "checkoutRef (scanLine lines p st i)
     = (if includes' (trim (lines ! i)) (js ''actions/checkout'')
        then (case lookAheadRef lines (i + 1) (min (i + 10) (length lines)) of
                Some r \<Rightarrow> r | None \<Rightarrow> checkoutRef st)
        else checkoutRef st)"
  by (simp add: scanLine_def Let_def split: option.splits)

lemma scanLine_lineFindings:
  "\<exists>new. lineFindings (scanLine lines p st i) = lineFindings st @ new
     \<and> (\<forall>f\<in>set new. lineNumber f = Some (i + 1))
     \<and> (includes' (trim (lines ! i)) (js ''pull_request_target'')
          \<longrightarrow> triggerFinding p (i + 1) (trim (lines ! i)) \<in> set new)"
  by (auto simp: scanLine_def Let_def lineFinding_def triggerFinding_def)

lemma stateAfter_0: "stateAfter lines p 0 = initialWorkflowState"
  by (simp add: stateAfter_def)

lemma stateAfter_Suc: "stateAfter lines p (Suc n) = scanLine lines p (stateAfter lines p n) n"
  by (simp add: stateAfter_def)

lemma stateAfter_hasPullRequestTarget:
  "hasPullRequestTarget (stateAfter lines p n)
     \<longleftrightarrow> (\<exists>i<n. includes' (trim (lines ! i)) (js ''pull_request_target''))"
  by (induction n)
    (auto simp: stateAfter_0 stateAfter_Suc scanLine_hasPullRequestTarget
      initialWorkflowState_def less_Suc_eq)


text \<open>Every finding of the loop over the lines carries a line number.\<close>

lemma stateAfter_numbered:
  "\<forall>f\<in>set (lineFindings (stateAfter lines p n)). lineNumber f \<noteq> None"
proof (induction n)
  case 0
  then show ?case by (simp add: stateAfter_0 initialWorkflowState_def)
next
  case (Suc n)
  obtain new where
    "lineFindings (scanLine lines p (stateAfter lines p n) n)
       = lineFindings (stateAfter lines p n) @ new"
    "\<forall>f\<in>set new. lineNumber f = Some (n + 1)"
    using scanLine_lineFindings [of lines p "stateAfter lines p n" n] by blast
  with Suc show ?case by (auto simp: stateAfter_Suc)
qed





lemma list_all_drop_iff:
  "list_all P (drop n xs) \<longleftrightarrow> (\<forall>j. n \<le> j \<and> j < length xs \<longrightarrow> P (xs ! j))"
proof
  assume a: "list_all P (drop n xs)"
  show "\<forall>j. n \<le> j \<and> j < length xs \<longrightarrow> P (xs ! j)"
  proof (intro allI impI)
    fix j
    assume j: "n \<le> j \<and> j < length xs"
    then have "j - n < length (drop n xs)" by (simp add: diff_less_mono)
    then have "P (drop n xs ! (j - n))" using a by (simp add: list_all_length)
    then show "P (xs ! j)" using j by simp
  qed
next
  assume a: "\<forall>j. n \<le> j \<and> j < length xs \<longrightarrow> P (xs ! j)"
  show "list_all P (drop n xs)"
    unfolding list_all_length
  proof (intro allI impI)
    fix i
    assume i: "i < length (drop n xs)"
    then have "n \<le> n + i \<and> n + i < length xs" by simp
    then have "P (xs ! (n + i))" using a by blast
    then show "P (drop n xs ! i)" using i by simp
  qed
qed

lemma list_all_upt_iff: "list_all P [a..<b] \<longleftrightarrow> (\<forall>j. a \<le> j \<and> j < b \<longrightarrow> P j)"
  by (auto simp: list_all_iff)


lemma pwnRequestFinding_not_numbered: "lineNumber (pwnRequestFinding p) = None"
  by (simp add: pwnRequestFinding_def)



text \<open>What the look-ahead returns is the first \<open>ref:\<close> line, reached without a stop.\<close>

lemma lookAheadRef_SomeD:
  "lookAheadRef lines i bound = Some x \<Longrightarrow>
   \<exists>r. i \<le> r \<and> r < bound \<and> x = trim (lines ! r) \<and> startsWith (trim (lines ! r)) (js ''ref:'')
     \<and> (\<forall>j. i \<le> j \<and> j < r \<longrightarrow> \<not> startsWith (trim (lines ! j)) (js ''ref:'')
            \<and> \<not> startsWith (trim (lines ! j)) (js ''-'')
            \<and> \<not> startsWith (trim (lines ! j)) (js ''uses:''))"
proof (induction lines i bound rule: lookAheadRef.induct)
  case (1 lines i bound)
  have ib: "i < bound"
    using "1.prems" by (subst (asm) lookAheadRef.simps) (simp split: if_splits)
  show ?case
  proof (cases "startsWith (trim (lines ! i)) (js ''ref:'')")
    case True
    then have "x = trim (lines ! i)"
      using "1.prems" ib by (subst (asm) lookAheadRef.simps) simp
    then show ?thesis using True ib by (intro exI [of _ i]) auto
  next
    case False
    have nostop: "\<not> (startsWith (trim (lines ! i)) (js ''-'')
                     \<or> startsWith (trim (lines ! i)) (js ''uses:''))"
      using "1.prems" ib False by (subst (asm) lookAheadRef.simps) (simp split: if_splits)
    then have "lookAheadRef lines (i + 1) bound = Some x"
      using "1.prems" ib False by (subst (asm) lookAheadRef.simps) simp
    then obtain r where r: "i + 1 \<le> r" "r < bound" "x = trim (lines ! r)"
        "startsWith (trim (lines ! r)) (js ''ref:'')"
        "\<forall>j. i + 1 \<le> j \<and> j < r \<longrightarrow> \<not> startsWith (trim (lines ! j)) (js ''ref:'')
            \<and> \<not> startsWith (trim (lines ! j)) (js ''-'')
            \<and> \<not> startsWith (trim (lines ! j)) (js ''uses:'')"
      using "1.IH" [OF ib False nostop] by blast
    have "\<forall>j. i \<le> j \<and> j < r \<longrightarrow> \<not> startsWith (trim (lines ! j)) (js ''ref:'')
            \<and> \<not> startsWith (trim (lines ! j)) (js ''-'')
            \<and> \<not> startsWith (trim (lines ! j)) (js ''uses:'')"
    proof (intro allI impI)
      fix j
      assume j: "i \<le> j \<and> j < r"
      show "\<not> startsWith (trim (lines ! j)) (js ''ref:'')
            \<and> \<not> startsWith (trim (lines ! j)) (js ''-'')
            \<and> \<not> startsWith (trim (lines ! j)) (js ''uses:'')"
      proof (cases "j = i")
        case True
        then show ?thesis using False nostop by simp
      next
        case False
        then have "i + 1 \<le> j \<and> j < r" using j by simp
        then show ?thesis using r(5) by blast
      qed
    qed
    then show ?thesis using r(1-4) by (intro exI [of _ r]) simp
  qed
qed

text \<open>
  A \<open>checkoutRef\<close> that is not empty was found by the look-ahead of a checkout line, and
  no later checkout line found another.
\<close>

lemma stateAfter_checkoutRef_source:
  "checkoutRef (stateAfter lines p n) = [] \<or>
   (\<exists>k<n. includes' (trim (lines ! k)) (js ''actions/checkout'')
      \<and> lookAheadRef lines (k + 1) (min (k + 10) (length lines))
          = Some (checkoutRef (stateAfter lines p n))
      \<and> (\<forall>j. k < j \<and> j < n \<and> includes' (trim (lines ! j)) (js ''actions/checkout'')
             \<longrightarrow> lookAheadRef lines (j + 1) (min (j + 10) (length lines)) = None))"
proof (induction n)
  case 0
  then show ?case by (simp add: stateAfter_0 initialWorkflowState_def)
next
  case (Suc n)
  let ?la = "lookAheadRef lines (n + 1) (min (n + 10) (length lines))"
  show ?case
  proof (cases "includes' (trim (lines ! n)) (js ''actions/checkout'') \<and> ?la \<noteq> None")
    case True
    then obtain x where x: "?la = Some x" by blast
    then have cx: "checkoutRef (stateAfter lines p (Suc n)) = x"
      using True by (simp add: stateAfter_Suc scanLine_checkoutRef)
    have vac: "\<forall>j. n < j \<and> j < Suc n \<and> includes' (trim (lines ! j)) (js ''actions/checkout'')
             \<longrightarrow> lookAheadRef lines (j + 1) (min (j + 10) (length lines)) = None"
    proof (intro allI impI)
      fix j
      assume "n < j \<and> j < Suc n \<and> includes' (trim (lines ! j)) (js ''actions/checkout'')"
      then have False by linarith
      then show "lookAheadRef lines (j + 1) (min (j + 10) (length lines)) = None" ..
    qed
    have "n < Suc n \<and> includes' (trim (lines ! n)) (js ''actions/checkout'')
      \<and> lookAheadRef lines (n + 1) (min (n + 10) (length lines))
          = Some (checkoutRef (stateAfter lines p (Suc n)))
      \<and> (\<forall>j. n < j \<and> j < Suc n \<and> includes' (trim (lines ! j)) (js ''actions/checkout'')
             \<longrightarrow> lookAheadRef lines (j + 1) (min (j + 10) (length lines)) = None)"
      using True x cx vac by blast
    then show ?thesis by blast
  next
    case False
    then have same: "checkoutRef (stateAfter lines p (Suc n)) = checkoutRef (stateAfter lines p n)"
      by (auto simp: stateAfter_Suc scanLine_checkoutRef)
    show ?thesis
    proof (cases "checkoutRef (stateAfter lines p n) = []")
      case True
      then show ?thesis using same by simp
    next
      case nonempty: False
      then obtain k where k: "k < n" "includes' (trim (lines ! k)) (js ''actions/checkout'')"
          "lookAheadRef lines (k + 1) (min (k + 10) (length lines))
            = Some (checkoutRef (stateAfter lines p n))"
          "\<forall>j. k < j \<and> j < n \<and> includes' (trim (lines ! j)) (js ''actions/checkout'')
             \<longrightarrow> lookAheadRef lines (j + 1) (min (j + 10) (length lines)) = None"
        using Suc.IH by blast
      have "\<forall>j. k < j \<and> j < Suc n \<and> includes' (trim (lines ! j)) (js ''actions/checkout'')
             \<longrightarrow> lookAheadRef lines (j + 1) (min (j + 10) (length lines)) = None"
      proof (intro allI impI)
        fix j
        assume j: "k < j \<and> j < Suc n \<and> includes' (trim (lines ! j)) (js ''actions/checkout'')"
        show "lookAheadRef lines (j + 1) (min (j + 10) (length lines)) = None"
        proof (cases "j = n")
          case True
          then show ?thesis using False j by simp
        next
          case False
          then have "k < j \<and> j < n \<and> includes' (trim (lines ! j)) (js ''actions/checkout'')"
            using j by simp
          then show ?thesis using k(4) by blast
        qed
      qed
      then have "k < Suc n \<and> includes' (trim (lines ! k)) (js ''actions/checkout'')
        \<and> lookAheadRef lines (k + 1) (min (k + 10) (length lines))
            = Some (checkoutRef (stateAfter lines p (Suc n)))
        \<and> (\<forall>j. k < j \<and> j < Suc n \<and> includes' (trim (lines ! j)) (js ''actions/checkout'')
               \<longrightarrow> lookAheadRef lines (j + 1) (min (j + 10) (length lines)) = None)"
        using k(1-3) same by simp
      then show ?thesis by blast
    qed
  qed
qed

lemma list_all_sliceI:
  assumes "\<forall>j. a \<le> j \<and> j < b \<and> j < length xs \<longrightarrow> P (xs ! j)"
  shows "list_all P (slice xs a b)"
  unfolding list_all_length
proof (intro allI impI)
  fix i
  assume i: "i < length (slice xs a b)"
  then have b: "i < length xs - a" "i < b - a" by (simp_all add: slice_def)
  then have "a \<le> a + i \<and> a + i < b \<and> a + i < length xs" by linarith
  then have "P (xs ! (a + i))" using assms by blast
  moreover have "a \<le> length xs" using b(1) by linarith
  ultimately show "P (slice xs a b ! i)" using b(2) by (simp add: slice_def)
qed

text \<open>
  The converse: the scanner reports the pwn-request finding only for a workflow of
  this shape.
\<close>

lemma pwn_request_only_then:
  assumes "pwnRequestFinding p \<in> set (scanGitHubActions c p)"
  shows "\<exists>t k r. t < length (split 10 c)
      \<and> includes' (trim (split 10 c ! t)) (js ''pull_request_target'')
      \<and> k < length (split 10 c)
      \<and> includes' (trim (split 10 c ! k)) (js ''actions/checkout'')
      \<and> list_all (\<lambda>j. includes' (trim (split 10 c ! j)) (js ''actions/checkout'')
                     \<longrightarrow> lookAheadRef (split 10 c) (j + 1) (min (j + 10) (length (split 10 c)))
                           = None)
           [Suc k..<length (split 10 c)]
      \<and> k < r \<and> r < k + 10 \<and> r < length (split 10 c)
      \<and> startsWith (trim (split 10 c ! r)) (js ''ref:'')
      \<and> list_all (\<lambda>l. \<not> startsWith (trim l) (js ''ref:'') \<and> \<not> startsWith (trim l) (js ''-'')
                       \<and> \<not> startsWith (trim l) (js ''uses:''))
           (slice (split 10 c) (Suc k) r)
      \<and> (includes' (trim (split 10 c ! r)) (js ''pull_request'')
          \<or> includes' (trim (split 10 c ! r)) (js ''head.ref'')
          \<or> includes' (trim (split 10 c ! r)) (js ''head.sha''))"
proof -
  let ?L = "split 10 c"
  define st where "st = stateAfter ?L p (length ?L)"
  have st_eq: "scanLines c p = st"
    by (simp add: scanLines_def st_def stateAfter_def)
  have "\<forall>f\<in>set (lineFindings st). lineNumber f \<noteq> None"
    unfolding st_def by (rule stateAfter_numbered)
  then have notin: "pwnRequestFinding p \<notin> set (lineFindings st)"
    using pwnRequestFinding_not_numbered [of p] by blast
  have wr: "workflowRunFinding p \<noteq> pwnRequestFinding p"
    by (simp add: workflowRunFinding_def pwnRequestFinding_def)
  have pwn: "isPwnRequest st"
    using assms notin wr
    by (auto simp: scanGitHubActions_def st_eq Let_def split: if_splits)
  then have "hasPullRequestTarget st" by (simp add: isPwnRequest_def)
  then obtain t where t: "t < length ?L" "includes' (trim (?L ! t)) (js ''pull_request_target'')"
    unfolding st_def stateAfter_hasPullRequestTarget by blast
  have h: "includes' (checkoutRef st) (js ''pull_request'')
      \<or> includes' (checkoutRef st) (js ''head.ref'')
      \<or> includes' (checkoutRef st) (js ''head.sha'')"
    using pwn by (simp add: isPwnRequest_def)
  then have "checkoutRef st \<noteq> []" by (auto simp: js_def)
  then obtain k where k: "k < length ?L" "includes' (trim (?L ! k)) (js ''actions/checkout'')"
      "lookAheadRef ?L (k + 1) (min (k + 10) (length ?L)) = Some (checkoutRef st)"
      "\<forall>j. k < j \<and> j < length ?L \<and> includes' (trim (?L ! j)) (js ''actions/checkout'')
         \<longrightarrow> lookAheadRef ?L (j + 1) (min (j + 10) (length ?L)) = None"
    using stateAfter_checkoutRef_source [of ?L p "length ?L"] unfolding st_def by blast
  obtain r where r: "k + 1 \<le> r" "r < min (k + 10) (length ?L)" "checkoutRef st = trim (?L ! r)"
      "startsWith (trim (?L ! r)) (js ''ref:'')"
      "\<forall>j. k + 1 \<le> j \<and> j < r \<longrightarrow> \<not> startsWith (trim (?L ! j)) (js ''ref:'')
            \<and> \<not> startsWith (trim (?L ! j)) (js ''-'')
            \<and> \<not> startsWith (trim (?L ! j)) (js ''uses:'')"
    using lookAheadRef_SomeD [OF k(3)] by blast
  have later: "list_all (\<lambda>j. includes' (trim (?L ! j)) (js ''actions/checkout'')
                     \<longrightarrow> lookAheadRef ?L (j + 1) (min (j + 10) (length ?L)) = None)
           [Suc k..<length ?L]"
    unfolding list_all_upt_iff using k(4) by (simp add: Suc_le_eq)
  have between: "list_all (\<lambda>l. \<not> startsWith (trim l) (js ''ref:'') \<and> \<not> startsWith (trim l) (js ''-'')
                       \<and> \<not> startsWith (trim l) (js ''uses:''))
           (slice ?L (Suc k) r)"
    using r(5) by (intro list_all_sliceI) simp
  have "t < length ?L \<and> includes' (trim (?L ! t)) (js ''pull_request_target'')
      \<and> k < length ?L \<and> includes' (trim (?L ! k)) (js ''actions/checkout'')
      \<and> list_all (\<lambda>j. includes' (trim (?L ! j)) (js ''actions/checkout'')
                     \<longrightarrow> lookAheadRef ?L (j + 1) (min (j + 10) (length ?L)) = None)
           [Suc k..<length ?L]
      \<and> k < r \<and> r < k + 10 \<and> r < length ?L
      \<and> startsWith (trim (?L ! r)) (js ''ref:'')
      \<and> list_all (\<lambda>l. \<not> startsWith (trim l) (js ''ref:'') \<and> \<not> startsWith (trim l) (js ''-'')
                       \<and> \<not> startsWith (trim l) (js ''uses:''))
           (slice ?L (Suc k) r)
      \<and> (includes' (trim (?L ! r)) (js ''pull_request'')
          \<or> includes' (trim (?L ! r)) (js ''head.ref'')
          \<or> includes' (trim (?L ! r)) (js ''head.sha''))"
    using t k(1,2) later r(1,2,4) between h unfolding r(3) by simp
  then show ?thesis by blast
qed







end
